theory Spec2Isabelle
  imports Main "HOL-Library.Word"
begin

unbundle bit_operations_syntax

section \<open>Values crossing the addon boundary\<close>

type_synonym byte = "8 word"
type_synonym uint64 = "64 word"

text \<open>
  An argument of a method call (\<open>info[i]\<close>). Only the distinctions the methods make
  are kept: \<open>node::Buffer::HasInstance\<close>, \<open>IsUndefined\<close>, and the string a value
  converts to. \<open>Text s\<close> is any defined value that is not a buffer and whose
  \<open>ToString()\<close> is \<open>s\<close>.
\<close>

datatype jsval = Undefined | Buffer "byte list" | Text string

text \<open>\<open>info[i]\<close>: reading past \<open>info.Length()\<close> yields undefined.\<close>

definition info_at :: "jsval list \<Rightarrow> nat \<Rightarrow> jsval" where
  "info_at info i = (if i < length info then info ! i else Undefined)"

fun HasInstance :: "jsval \<Rightarrow> bool" where
  "HasInstance (Buffer b) = True"
| "HasInstance v = False"

fun Data :: "jsval \<Rightarrow> byte list" where
  "Data (Buffer b) = b"
| "Data v = []"

fun IsUndefined :: "jsval \<Rightarrow> bool" where
  "IsUndefined Undefined = True"
| "IsUndefined v = False"

text \<open>
  Every \<open>Nan::ThrowError\<close> site of the modelled methods, one constructor per message;
  \<open>PrimitiveFault\<close> and \<open>HardwareFault\<close> carry the \<open>what()\<close> of the caught exception.
\<close>

datatype js_error =
    SeedBufferNotProvided
  | KeyMessageBuffersNotProvided
  | KeyNot32Bytes
  | PrimitiveFault string
  | KeyBufferNotProvided
  | FileIdBufferNotProvided
  | DiskKeyBufferNotProvided
  | HardwareFault string
  | NotEnoughEntropy
  | ValueNotProvided

section \<open>Stores into a vector\<close>

text \<open>
  The content of the vector \<open>v\<close> after the bytes \<open>d\<close> have been stored from its
  first element on. The bytes of \<open>d\<close> beyond the size of \<open>v\<close> do not land in it.
\<close>

definition store_at :: "byte list \<Rightarrow> byte list \<Rightarrow> byte list" where
  "store_at v d = take (length v) d @ drop (length d) v"

text \<open>
  A call that stores past the end of a heap vector has no defined behaviour from there
  on: it is \<open>HeapOverrun\<close>, whatever a particular build then does. Otherwise the call
  is \<open>Defined\<close>, with what it returns or throws.
\<close>

datatype 'a behaviour = Defined 'a | HeapOverrun

section \<open>aesxor.cc\<close>

text \<open>
  Lengths and indices are natural numbers. The source keeps some of them in \<open>int\<close>
  variables (\<open>idx\<close>, \<open>len\<close>, \<open>inputLen\<close>), which hold every length below
  \<open>2^31\<close>; the model is of buffers of such lengths.
\<close>

subsection \<open>uInt64toBytes\<close>

text \<open>
  The mask of byte \<open>i\<close> is written \<open>(0x00000000000000FF) << (8 * i)\<close>. The literal has
  type \<open>int\<close> (32 bits), so the shift is a 32-bit signed shift whose result is then
  converted to \<open>uint64_t\<close> for the \<open>&\<close>: for a count below 32 that is the 32-bit
  pattern, sign-extended (count 24 gives \<open>0xFFFFFFFFFF000000\<close>); for a count of 32 or
  more the language leaves the shift undefined, and \<open>wide\<close> stands for whatever the
  compiled shift yields there.
\<close>

definition int_shl_FF :: "(nat \<Rightarrow> uint64) \<Rightarrow> nat \<Rightarrow> uint64" where
  "int_shl_FF wide s = (if s < 32 then scast (push_bit s (0xFF :: 32 word)) else wide s)"

text \<open>The inner \<open>for (int i = 0; i < 8; ++i)\<close>: the eight bytes stored for one word.\<close>

definition word_bytes :: "(nat \<Rightarrow> uint64) \<Rightarrow> uint64 \<Rightarrow> byte list" where
  "word_bytes wide w =
     map (\<lambda>i. ucast (drop_bit (8 * i) (w AND int_shl_FF wide (8 * i)))) [0..<8]"

text \<open>
  The outer \<open>while (begin != end)\<close>. The result is the sequence of bytes stored through
  \<open>out\<close>, in order: element \<open>j\<close> is the byte written at \<open>out + j\<close>.
\<close>

fun uInt64toBytes :: "(nat \<Rightarrow> uint64) \<Rightarrow> uint64 list \<Rightarrow> byte list" where
  "uInt64toBytes wide [] = []"
| "uInt64toBytes wide (w # ws) = word_bytes wide w @ uInt64toBytes wide ws"

subsection \<open>bytesToUInt64\<close>

text \<open>
  \<open>returnVal = (returnVal << 8) + (uint8_t)bufferData[idx]\<close> over the buffer, in
  \<open>uint64_t\<close> arithmetic (the sum wraps modulo \<open>2^64\<close>).
\<close>

fun bytesToUInt64_from :: "uint64 \<Rightarrow> byte list \<Rightarrow> uint64" where
  "bytesToUInt64_from returnVal [] = returnVal"
| "bytesToUInt64_from returnVal (b # bs) =
     bytesToUInt64_from (push_bit 8 returnVal + ucast b) bs"

definition bytesToUInt64 :: "byte list \<Rightarrow> uint64" where
  "bytesToUInt64 bufferData = bytesToUInt64_from 0 bufferData"

subsection \<open>The AESXOR256 object\<close>

text \<open>
  The object holds the PCG generator \<open>_rng\<close>. The generator (\<open>pcg64_once_insecure\<close>)
  is a library type: \<open>'g\<close> is its state, \<open>pcg_seed\<close> its constructor from a seed and
  \<open>pcg_next\<close> its \<open>operator()\<close>, which returns a 64-bit value and advances the state.
\<close>

record 'g AESXOR256 =
  rng :: 'g

definition AESXOR256_ctor :: "(uint64 \<Rightarrow> 'g) \<Rightarrow> uint64 \<Rightarrow> 'g AESXOR256" where
  "AESXOR256_ctor pcg_seed seed = \<lparr> rng = pcg_seed seed \<rparr>"

text \<open>The loop \<open>randomVector[i] = (*_rng)()\<close> for \<open>i < numRand\<close>.\<close>

fun draw :: "('g \<Rightarrow> uint64 \<times> 'g) \<Rightarrow> nat \<Rightarrow> 'g \<Rightarrow> uint64 list \<times> 'g" where
  "draw pcg_next 0 g = ([], g)"
| "draw pcg_next (Suc k) g =
     (case pcg_next g of (w, g') \<Rightarrow>
        (case draw pcg_next k g' of (ws, g'') \<Rightarrow> (w # ws, g'')))"

text \<open>
  \<open>getRandom(random, len)\<close>. The first component is the sequence of bytes it stores
  from \<open>random\<close> onwards (element \<open>j\<close> goes to \<open>random[j]\<close>); the caller's buffer
  has \<open>len\<close> bytes, so a store at an index \<open>j \<ge> len\<close> lies outside it.
\<close>

definition getRandom ::
  "('g \<Rightarrow> uint64 \<times> 'g) \<Rightarrow> (nat \<Rightarrow> uint64) \<Rightarrow> 'g \<Rightarrow> nat \<Rightarrow> byte list \<times> 'g" where
  "getRandom pcg_next wide g len =
     (let numRand = (if len mod 8 = 0 then len div 8 else len div 8 + 1) in
      case draw pcg_next numRand g of
        (randomVector, g') \<Rightarrow> (uInt64toBytes wide randomVector, g'))"

text \<open>
  \<open>xorRandomData(output, input)\<close>: \<open>random\<close> is a heap vector of \<open>input.size()\<close>
  zero bytes, and \<open>getRandom(random.data(), random.size())\<close> stores into it. When
  the stores stay inside the vector, \<open>std::transform\<close> XORs the vector with the input
  byte by byte; when they do not, the call has overrun the heap.
\<close>

definition xorRandomData ::
  "('g \<Rightarrow> uint64 \<times> 'g) \<Rightarrow> (nat \<Rightarrow> uint64) \<Rightarrow> 'g AESXOR256 \<Rightarrow> byte list
     \<Rightarrow> (byte list \<times> 'g AESXOR256) behaviour" where
  "xorRandomData pcg_next wide obj input =
     (case getRandom pcg_next wide (rng obj) (length input) of
        (stored, g') \<Rightarrow>
          if length stored \<le> length input
          then
            (let random = store_at (replicate (length input) 0) stored in
             Defined (map2 (XOR) input random, obj\<lparr>rng := g'\<rparr>))
          else HeapOverrun)"

text \<open>
  \<open>encryptBlock\<close> and \<open>decryptBlock\<close> run AES-GCM of the Crypto++ library under a
  zero IV. The library is a collaborator: \<open>gcm\<close> maps key and input to the output
  bytes, or to the message of the \<open>CryptoPP::Exception\<close> it throws.
\<close>

definition encryptBlock ::
  "(byte list \<Rightarrow> byte list \<Rightarrow> string + byte list) \<Rightarrow> byte list \<Rightarrow> byte list
     \<Rightarrow> string + byte list" where
  "encryptBlock gcm_enc key message = gcm_enc key message"

definition decryptBlock ::
  "(byte list \<Rightarrow> byte list \<Rightarrow> string + byte list) \<Rightarrow> byte list \<Rightarrow> byte list
     \<Rightarrow> string + byte list" where
  "decryptBlock gcm_dec key cipher = gcm_dec key cipher"

text \<open>\<open>AESXOR256::New\<close>, invoked as a constructor.\<close>

definition AESXOR256_New ::
  "(uint64 \<Rightarrow> 'g) \<Rightarrow> jsval list \<Rightarrow> js_error + 'g AESXOR256" where
  "AESXOR256_New pcg_seed info =
     (if HasInstance (info_at info 0)
      then Inr (AESXOR256_ctor pcg_seed (bytesToUInt64 (Data (info_at info 0))))
      else Inl SeedBufferNotProvided)"

text \<open>
  \<open>AESXOR256::encrypt\<close>. A defined call gives the thrown error or the returned
  buffer, with the object after the call. The whitening runs before the \<open>try\<close>
  block around \<open>encryptBlock\<close>.
\<close>

definition encrypt ::
  "('g \<Rightarrow> uint64 \<times> 'g) \<Rightarrow> (nat \<Rightarrow> uint64) \<Rightarrow> (byte list \<Rightarrow> byte list \<Rightarrow> string + byte list)
     \<Rightarrow> 'g AESXOR256 \<Rightarrow> jsval list \<Rightarrow> ((js_error + byte list) \<times> 'g AESXOR256) behaviour" where
  "encrypt pcg_next wide gcm_enc obj info =
     (if 2 \<le> length info \<and> HasInstance (info_at info 0) \<and> HasInstance (info_at info 1)
      then
        (let keyData = Data (info_at info 0); messageData = Data (info_at info 1) in
         if length keyData = 32
         then
           (case xorRandomData pcg_next wide obj messageData of
              HeapOverrun \<Rightarrow> HeapOverrun
            | Defined (temp, obj') \<Rightarrow>
                (case encryptBlock gcm_enc keyData temp of
                   Inl what \<Rightarrow> Defined (Inl (PrimitiveFault what), obj')
                 | Inr cipherData \<Rightarrow> Defined (Inr cipherData, obj')))
         else Defined (Inl KeyNot32Bytes, obj))
      else Defined (Inl KeyMessageBuffersNotProvided, obj))"

text \<open>
  \<open>AESXOR256::decrypt\<close>. The whitening runs after the \<open>try\<close> block around
  \<open>decryptBlock\<close>, on the decrypted bytes.
\<close>

definition decrypt ::
  "('g \<Rightarrow> uint64 \<times> 'g) \<Rightarrow> (nat \<Rightarrow> uint64) \<Rightarrow> (byte list \<Rightarrow> byte list \<Rightarrow> string + byte list)
     \<Rightarrow> 'g AESXOR256 \<Rightarrow> jsval list \<Rightarrow> ((js_error + byte list) \<times> 'g AESXOR256) behaviour" where
  "decrypt pcg_next wide gcm_dec obj info =
     (if 2 \<le> length info \<and> HasInstance (info_at info 0) \<and> HasInstance (info_at info 1)
      then
        (let keyData = Data (info_at info 0); cipherData = Data (info_at info 1) in
         if length keyData = 32
         then
           (case decryptBlock gcm_dec keyData cipherData of
              Inl what \<Rightarrow> Defined (Inl (PrimitiveFault what), obj)
            | Inr temp \<Rightarrow>
                (case xorRandomData pcg_next wide obj temp of
                   HeapOverrun \<Rightarrow> HeapOverrun
                 | Defined (messageData, obj') \<Rightarrow> Defined (Inr messageData, obj')))
         else Defined (Inl KeyNot32Bytes, obj))
      else Defined (Inl KeyMessageBuffersNotProvided, obj))"

text \<open>
  The whitening stream of a call on \<open>obj\<close> for \<open>n\<close> bytes: the bytes \<open>getRandom\<close>
  stores for it.
\<close>

definition whitening ::
  "('g \<Rightarrow> uint64 \<times> 'g) \<Rightarrow> (nat \<Rightarrow> uint64) \<Rightarrow> 'g AESXOR256 \<Rightarrow> nat \<Rightarrow> byte list" where
  "whitening pcg_next wide obj n = fst (getRandom pcg_next wide (rng obj) n)"

text \<open>The value of a byte sequence read as a big-endian number, without a width.\<close>

definition big_endian_value :: "byte list \<Rightarrow> nat" where
  "big_endian_value bs = foldl (\<lambda>v b. 256 * v + unat b) 0 bs"

section \<open>util.h\<close>

text \<open>
  A \<open>std::string\<close> is a \<open>string\<close>; where its bytes are hashed or a buffer is read as
  a string the two are converted bytewise.
\<close>

definition bytes_of :: "string \<Rightarrow> byte list" where
  "bytes_of str = map (\<lambda>c. of_nat (of_char c)) str"

definition string_of :: "byte list \<Rightarrow> string" where
  "string_of bs = map (\<lambda>b. char_of (unat b)) bs"

text \<open>
  \<open>hash.Final(digest.data())\<close> stores the digest the primitive produced at the start
  of the vector \<open>digest\<close> (\<open>store_at\<close>). The vector has \<open>DIGESTSIZE\<close> bytes at every
  call, the size of the digest the primitive is specified to produce.
\<close>

text \<open>
  \<open>sha3_256\<close> is the Crypto++ primitive (\<open>Update\<close> on the whole input, then
  \<open>Final\<close>), a collaborator.
\<close>

definition hashString :: "(byte list \<Rightarrow> byte list) \<Rightarrow> byte list \<Rightarrow> string \<Rightarrow> byte list" where
  "hashString sha3_256 digest str = store_at digest (sha3_256 (bytes_of str))"

definition hashBuffer ::
  "(byte list \<Rightarrow> byte list) \<Rightarrow> byte list \<Rightarrow> byte list \<Rightarrow> nat \<Rightarrow> byte list" where
  "hashBuffer sha3_256 digest input inputLen = store_at digest (sha3_256 (take inputLen input))"

section \<open>seifsha3.cc\<close>

text \<open>
  \<open>v8::String::Utf8Value\<close> of the \<open>ToString()\<close> of a value. For a Buffer the
  runtime decodes the bytes as UTF-8 and \<open>Utf8Value\<close> encodes the string again, so
  bytes that are not valid UTF-8 come back replaced; \<open>Buffer_toString\<close> is that
  conversion of the runtime, a collaborator.
\<close>

fun Utf8Value :: "(byte list \<Rightarrow> string) \<Rightarrow> jsval \<Rightarrow> string" where
  "Utf8Value Buffer_toString Undefined = ''undefined''"
| "Utf8Value Buffer_toString (Text s) = s"
| "Utf8Value Buffer_toString (Buffer b) = Buffer_toString b"

text \<open>
  \<open>*str\<close> is a \<open>char*\<close>; converting it to a \<open>std::string\<close> (the parameter of
  \<open>hashString\<close>, the assignment to \<open>fileId\<close>) stops at the first NUL character.
\<close>

definition from_c_str :: "string \<Rightarrow> string" where
  "from_c_str s = takeWhile (\<lambda>c. c \<noteq> CHR 0x00) s"

definition DIGESTSIZE :: nat where
  "DIGESTSIZE = 32"

text \<open>
  \<open>SEIFSHA3::hash\<close>: the thrown error or the returned buffer, with the state of the
  addon after the call. \<open>addon\<close> is everything that outlives a call: the global pool
  \<open>l_PRNG\<close> and the wrapped objects. The method has a local vector and a local hash
  object and assigns to nothing else.
\<close>

definition SEIFSHA3_hash ::
  "(byte list \<Rightarrow> string) \<Rightarrow> (byte list \<Rightarrow> byte list) \<Rightarrow> jsval list \<Rightarrow> 'w
     \<Rightarrow> (js_error + byte list) \<times> 'w" where
  "SEIFSHA3_hash Buffer_toString sha3_256 info addon =
     (if IsUndefined (info_at info 0) then (Inl ValueNotProvided, addon)
      else
        (let digest = replicate DIGESTSIZE 0 in
         if HasInstance (info_at info 0)
         then
           (let bufferData = Data (info_at info 0); bufferLength = length bufferData in
            (Inr (hashBuffer sha3_256 digest bufferData bufferLength), addon))
         else
           (Inr (hashString sha3_256 digest
                   (from_c_str (Utf8Value Buffer_toString (info_at info 0)))), addon)))"

section \<open>rng.cc\<close>

text \<open>
  The block that turns the key buffer into \<open>digest\<close>. It stands, character for
  character the same, in \<open>RNG::isInitialized\<close>, \<open>RNG::initialize\<close> and
  \<open>ECCISAAC::New\<close>: a buffer shorter than 32 bytes is hashed into a vector resized to
  \<open>DIGESTSIZE\<close>; otherwise \<open>std::copy\<close> with a \<open>back_inserter\<close> appends
  \<open>bufferData .. bufferData + bufferLength\<close> to the empty vector.
\<close>

definition key_digest :: "(byte list \<Rightarrow> byte list) \<Rightarrow> byte list \<Rightarrow> byte list" where
  "key_digest sha3_256 bufferData =
     (if length bufferData < 32
      then hashString sha3_256 (replicate DIGESTSIZE 0) (string_of bufferData)
      else [] @ bufferData)"

text \<open>
  The file identifier: \<open>"./"\<close> unless the second argument is defined, then its
  string (\<open>fileId = *str\<close>, a \<open>char*\<close> again).
\<close>

definition fileId_arg :: "(byte list \<Rightarrow> string) \<Rightarrow> jsval \<Rightarrow> string" where
  "fileId_arg Buffer_toString v =
     (if IsUndefined v then ''./'' else from_c_str (Utf8Value Buffer_toString v))"

text \<open>The worker queued by \<open>RNG::isInitialized\<close>.\<close>

record RNG_Worker =
  w_fileId :: string
  w_digest :: "byte list"

definition RNG_isInitialized ::
  "(byte list \<Rightarrow> string) \<Rightarrow> (byte list \<Rightarrow> byte list) \<Rightarrow> jsval list
     \<Rightarrow> js_error + RNG_Worker" where
  "RNG_isInitialized Buffer_toString sha3_256 info =
     (if HasInstance (info_at info 0)
      then
        (let bufferData = Data (info_at info 0);
             fileId = fileId_arg Buffer_toString (info_at info 1);
             digest = key_digest sha3_256 bufferData
         in Inr \<lparr> w_fileId = fileId, w_digest = digest \<rparr>)
      else Inl KeyBufferNotProvided)"

text \<open>
  \<open>IsaacRandomPool\<close> is a collaborator. \<open>'p\<close> is everything its calls read and
  change (the pool, its state file, the hardware sources). A call to \<open>Initialize\<close>
  returns \<open>Inr True\<close> or \<open>Inr False\<close>, or \<open>Inl what\<close> when it throws a
  \<open>std::exception\<close>.
\<close>

definition MAX_ENTROPY_GEN_MULTIPLIER :: nat where
  "MAX_ENTROPY_GEN_MULTIPLIER = 6"

text \<open>
  The loop \<open>for (; multiplier < 6; ++multiplier) if (Initialize(..)) break;\<close> inside
  its \<open>try\<close>: the result is the exception caught, or the value of \<open>multiplier\<close>
  after the loop.
\<close>

function entropy_loop ::
  "(nat \<Rightarrow> 'p \<Rightarrow> (string + bool) \<times> 'p) \<Rightarrow> nat \<Rightarrow> 'p \<Rightarrow> (string + nat) \<times> 'p" where
  "entropy_loop attempt multiplier p =
     (if multiplier < MAX_ENTROPY_GEN_MULTIPLIER
      then
        (case attempt multiplier p of
           (r, p') \<Rightarrow>
             (case r of
                Inl what \<Rightarrow> (Inl what, p')
              | Inr enough \<Rightarrow>
                  if enough then (Inr multiplier, p')
                  else entropy_loop attempt (Suc multiplier) p'))
      else (Inr multiplier, p))"
  by pat_completeness auto
termination
  by (relation "measure (\<lambda>(attempt, multiplier, p). MAX_ENTROPY_GEN_MULTIPLIER - multiplier)") auto

text \<open>\<open>RNG::initialize\<close> on the global pool \<open>l_PRNG\<close>.\<close>

definition RNG_initialize ::
  "(byte list \<Rightarrow> string) \<Rightarrow> (byte list \<Rightarrow> byte list)
     \<Rightarrow> (string \<Rightarrow> nat \<Rightarrow> byte list \<Rightarrow> 'p \<Rightarrow> (string + bool) \<times> 'p)
     \<Rightarrow> jsval list \<Rightarrow> 'p \<Rightarrow> (js_error + bool) \<times> 'p" where
  "RNG_initialize Buffer_toString sha3_256 Initialize info l_PRNG =
     (if HasInstance (info_at info 0)
      then
        (let bufferData = Data (info_at info 0);
             fileId = fileId_arg Buffer_toString (info_at info 1);
             digest = key_digest sha3_256 bufferData
         in case entropy_loop (\<lambda>multiplier. Initialize fileId multiplier digest) 0 l_PRNG of
              (r, l_PRNG') \<Rightarrow>
                (case r of
                   Inl what \<Rightarrow> (Inl (HardwareFault what), l_PRNG')
                 | Inr multiplier \<Rightarrow>
                     if multiplier = MAX_ENTROPY_GEN_MULTIPLIER
                     then (Inl NotEnoughEntropy, l_PRNG')
                     else (Inr True, l_PRNG')))
      else (Inl FileIdBufferNotProvided, l_PRNG))"

text \<open>
  An observer of the collaborator: \<open>traced Initialize\<close> behaves as \<open>Initialize\<close> on
  the first component of the state and appends each call (its arguments and what it
  returned) to the second.
\<close>

record call =
  c_fileId :: string
  c_multiplier :: nat
  c_digest :: "byte list"
  c_outcome :: "string + bool"

definition traced ::
  "(string \<Rightarrow> nat \<Rightarrow> byte list \<Rightarrow> 'p \<Rightarrow> (string + bool) \<times> 'p)
     \<Rightarrow> string \<Rightarrow> nat \<Rightarrow> byte list \<Rightarrow> 'p \<times> call list \<Rightarrow> (string + bool) \<times> ('p \<times> call list)" where
  "traced Initialize fileId multiplier digest s =
     (case Initialize fileId multiplier digest (fst s) of
        (r, p') \<Rightarrow>
          (r, (p', snd s @ [\<lparr> c_fileId = fileId, c_multiplier = multiplier,
                              c_digest = digest, c_outcome = r \<rparr>])))"

text \<open>The record of one call, as \<open>traced\<close> appends it.\<close>

definition call_of :: "string \<Rightarrow> byte list \<Rightarrow> nat \<Rightarrow> string + bool \<Rightarrow> call" where
  "call_of fileId digest multiplier r =
     \<lparr> c_fileId = fileId, c_multiplier = multiplier, c_digest = digest, c_outcome = r \<rparr>"

text \<open>
  The key normalisation as the specification words it: the hash of a secret shorter
  than 32 bytes, otherwise the first 32 bytes of the secret.
\<close>

definition spec_normalize_key :: "(byte list \<Rightarrow> byte list) \<Rightarrow> byte list \<Rightarrow> byte list" where
  "spec_normalize_key hash secret = (if length secret < 32 then hash secret else take 32 secret)"

section \<open>eccisaac.cc\<close>

datatype STATUS = SUCCESS | FILE_NOT_FOUND | DECRYPTION_ERROR | ENTROPY_ERROR | RNG_INIT_ERROR

definition RNG_STATE_FILE_NAME :: string where
  "RNG_STATE_FILE_NAME = ''.ecies.rng''"

definition PRIV_KEY_FILE_NAME :: string where
  "PRIV_KEY_FILE_NAME = ''.ecies.private.key''"

definition PUB_KEY_FILE_NAME :: string where
  "PUB_KEY_FILE_NAME = ''.ecies.public.key''"

text \<open>
  The disk maps a path to the bytes stored there. \<open>FileCryptopp\<close> is a collaborator:
  \<open>fileExists\<close> asks whether the path is present; \<open>readFile\<close> decrypts the stored
  bytes under a key and reports failure by \<open>None\<close>; \<open>writeFile\<close> leaves a disk
  behind and says whether it returned (\<open>True\<close>) or threw.
\<close>

type_synonym disk = "string \<Rightarrow> byte list option"

record FileCryptopp =
  readFile :: "byte list \<Rightarrow> byte list \<Rightarrow> byte list option"
  writeFile :: "disk \<Rightarrow> string \<Rightarrow> byte list \<Rightarrow> byte list \<Rightarrow> bool \<times> disk"

definition fileExists :: "disk \<Rightarrow> string \<Rightarrow> bool" where
  "fileExists d path = (d path \<noteq> None)"

text \<open>Whether the file is present and \<open>readFile\<close> succeeds on it under the key.\<close>

definition decrypts :: "FileCryptopp \<Rightarrow> disk \<Rightarrow> byte list \<Rightarrow> string \<Rightarrow> bool" where
  "decrypts fc d key path =
     (case d path of None \<Rightarrow> False | Some stored \<Rightarrow> readFile fc key stored \<noteq> None)"

text \<open>The content of a key file, decrypted under the key.\<close>

definition decrypted :: "FileCryptopp \<Rightarrow> disk \<Rightarrow> byte list \<Rightarrow> string \<Rightarrow> byte list" where
  "decrypted fc d key path = the (readFile fc key (the (d path)))"

text \<open>
  The key objects of Crypto++ (\<open>'k\<close> private, \<open>'q\<close> public) with their \<open>Load\<close>
  (\<open>None\<close> when the decoder throws), \<open>Save\<close>, validation and hex encoding, and
  the key generation of the \<open>Decryptor\<close> constructor from a pool \<open>'p\<close>.
\<close>

record ('k, 'q, 'p) ECIES =
  Load_private :: "byte list \<Rightarrow> 'k option"
  Load_public :: "byte list \<Rightarrow> 'q option"
  Save_private :: "'k \<Rightarrow> byte list"
  Save_public :: "'q \<Rightarrow> byte list"
  HexEncoder :: "byte list \<Rightarrow> string"
  Decryptor :: "'p \<Rightarrow> 'k \<times> 'p"
  Encryptor :: "'k \<Rightarrow> 'q"
  Valid_private :: "'p \<Rightarrow> 'k \<Rightarrow> bool \<times> 'p"
  Valid_public :: "'p \<Rightarrow> 'q \<Rightarrow> bool \<times> 'p"

text \<open>
  \<open>LoadPrivateKey\<close> and \<open>LoadPublicKey\<close>: the status returned with the key object
  after the call (the one passed in, unless \<open>Load\<close> ran), or \<open>Inl\<close> when \<open>Load\<close>
  throws.
\<close>

definition LoadPrivateKey ::
  "FileCryptopp \<Rightarrow> ('k, 'q, 'p) ECIES \<Rightarrow> disk \<Rightarrow> 'k \<Rightarrow> string \<Rightarrow> byte list \<Rightarrow> string
     \<Rightarrow> string + STATUS \<times> 'k" where
  "LoadPrivateKey fc ecies d privateKey file key folderPath =
     (if fileExists d (folderPath @ file)
      then
        (case readFile fc key (the (d (folderPath @ file))) of
           None \<Rightarrow> Inr (DECRYPTION_ERROR, privateKey)
         | Some keyStr \<Rightarrow>
             (case Load_private ecies keyStr of
                None \<Rightarrow> Inl ''BER decode error''
              | Some loaded \<Rightarrow> Inr (SUCCESS, loaded)))
      else Inr (FILE_NOT_FOUND, privateKey))"

definition LoadPublicKey ::
  "FileCryptopp \<Rightarrow> ('k, 'q, 'p) ECIES \<Rightarrow> disk \<Rightarrow> 'q \<Rightarrow> string \<Rightarrow> byte list \<Rightarrow> string
     \<Rightarrow> string + STATUS \<times> 'q" where
  "LoadPublicKey fc ecies d publicKey file key folderPath =
     (if fileExists d (folderPath @ file)
      then
        (case readFile fc key (the (d (folderPath @ file))) of
           None \<Rightarrow> Inr (DECRYPTION_ERROR, publicKey)
         | Some keyStr \<Rightarrow>
             (case Load_public ecies keyStr of
                None \<Rightarrow> Inl ''BER decode error''
              | Some loaded \<Rightarrow> Inr (SUCCESS, loaded)))
      else Inr (FILE_NOT_FOUND, publicKey))"

text \<open>
  The static \<open>ECCISAAC::loadKeys\<close>. \<open>d0\<close> and \<open>e0\<close> are the key objects of the
  default-constructed \<open>Decryptor\<close> and \<open>Encryptor\<close>. The result is the status with
  \<open>(encodedPub, encodedPriv)\<close>, which are set on success only. The digest and the
  file identifier the function computes before it returns are used nowhere and are
  left out.
\<close>

definition loadKeys ::
  "FileCryptopp \<Rightarrow> ('k, 'q, 'p) ECIES \<Rightarrow> 'k \<Rightarrow> 'q \<Rightarrow> disk \<Rightarrow> byte list \<Rightarrow> string
     \<Rightarrow> string + STATUS \<times> (string \<times> string) option" where
  "loadKeys fc ecies d0 e0 d key folderPath =
     (case LoadPrivateKey fc ecies d d0 PRIV_KEY_FILE_NAME key folderPath of
        Inl what \<Rightarrow> Inl what
      | Inr (rc, d0') \<Rightarrow>
          if rc \<noteq> SUCCESS then Inr (rc, None)
          else
            (case LoadPublicKey fc ecies d e0 PUB_KEY_FILE_NAME key folderPath of
               Inl what \<Rightarrow> Inl what
             | Inr (rc, e0') \<Rightarrow>
                 if rc \<noteq> SUCCESS then Inr (rc, None)
                 else
                   (let pubStr = Save_public ecies e0'; privStr = Save_private ecies d0';
                        encodedPub = HexEncoder ecies pubStr;
                        encodedPriv = HexEncoder ecies privStr
                    in Inr (SUCCESS, Some (encodedPub, encodedPriv)))))"

text \<open>\<open>SavePrivateKey\<close> and \<open>SavePublicKey\<close>.\<close>

definition SavePrivateKey ::
  "FileCryptopp \<Rightarrow> ('k, 'q, 'p) ECIES \<Rightarrow> disk \<Rightarrow> 'k \<Rightarrow> string \<Rightarrow> byte list \<Rightarrow> string
     \<Rightarrow> bool \<times> disk" where
  "SavePrivateKey fc ecies d privateKey file key folderPath =
     writeFile fc d (folderPath @ file) key (Save_private ecies privateKey)"

definition SavePublicKey ::
  "FileCryptopp \<Rightarrow> ('k, 'q, 'p) ECIES \<Rightarrow> disk \<Rightarrow> 'q \<Rightarrow> string \<Rightarrow> byte list \<Rightarrow> string
     \<Rightarrow> bool \<times> disk" where
  "SavePublicKey fc ecies d publicKey file key folderPath =
     writeFile fc d (folderPath @ file) key (Save_public ecies publicKey)"

text \<open>
  What the member \<open>ECCISAAC::generateKeys\<close> returns: \<open>true\<close> with the two encoded
  keys, or \<open>false\<close>, with the error thrown to the caller if there is one.
\<close>

datatype generated = Keys string string | Failure "js_error option"

text \<open>
  The second \<open>try\<close> block of \<open>generateKeys\<close>: both \<open>ThrowIfInvalid\<close> calls, then
  both saves. It yields \<open>False\<close> when the \<open>catch (...)\<close> is entered, and the disk as
  the block leaves it.
\<close>

definition validate_and_save ::
  "FileCryptopp \<Rightarrow> ('k, 'q, 'p) ECIES \<Rightarrow> 'p \<Rightarrow> disk \<Rightarrow> 'k \<Rightarrow> 'q \<Rightarrow> byte list \<Rightarrow> string
     \<Rightarrow> bool \<times> disk" where
  "validate_and_save fc ecies prng d d0 e0 key folderPath =
     (case Valid_private ecies prng d0 of
        (okPriv, prng') \<Rightarrow>
          if okPriv
          then
            (case Valid_public ecies prng' e0 of
               (okPub, prng'') \<Rightarrow>
                 if okPub
                 then
                   (case SavePrivateKey fc ecies d d0 PRIV_KEY_FILE_NAME key folderPath of
                      (wrote, d') \<Rightarrow>
                        if wrote
                        then SavePublicKey fc ecies d' e0 PUB_KEY_FILE_NAME key folderPath
                        else (False, d'))
                 else (False, d))
          else (False, d))"

text \<open>
  \<open>generateKeys\<close> on the disk \<open>d\<close>, with its local pool starting as \<open>prng\<close>. Its
  loop is the loop of \<open>RNG::initialize\<close> with the bound written \<open>6\<close> and the
  two-argument \<open>Initialize\<close>. The pool keeps its own state in \<open>'p\<close>; the disk of the
  model holds the key files, which only \<open>writeFile\<close> changes.
\<close>

definition generateKeys ::
  "(string \<Rightarrow> nat \<Rightarrow> 'p \<Rightarrow> (string + bool) \<times> 'p) \<Rightarrow> FileCryptopp \<Rightarrow> ('k, 'q, 'p) ECIES
     \<Rightarrow> 'p \<Rightarrow> disk \<Rightarrow> byte list \<Rightarrow> string \<Rightarrow> generated \<times> disk" where
  "generateKeys Initialize fc ecies prng d key folderPath =
     (let fileId = folderPath @ RNG_STATE_FILE_NAME in
      case entropy_loop (\<lambda>multiplier. Initialize fileId multiplier) 0 prng of
        (r, prng') \<Rightarrow>
          (case r of
             Inl what \<Rightarrow> (Failure (Some (HardwareFault what)), d)
           | Inr multiplier \<Rightarrow>
               if multiplier = 6 then (Failure (Some NotEnoughEntropy), d)
               else
                 (case Decryptor ecies prng' of
                    (d0, prng'') \<Rightarrow>
                      (let e0 = Encryptor ecies d0 in
                       case validate_and_save fc ecies prng'' d d0 e0 key folderPath of
                         (completed, d') \<Rightarrow>
                           if completed
                           then (Keys (HexEncoder ecies (Save_public ecies e0))
                                      (HexEncoder ecies (Save_private ecies d0)), d')
                           else (Failure None, d')))))"

text \<open>
  \<open>ECCISAAC::New\<close>, invoked as a constructor. A folder that does not end in a slash
  gets one appended (on the empty string the source's \<open>folder.back()\<close> is
  undefined; the model appends there too).
\<close>

record ECCISAAC =
  m_key :: "byte list"
  m_folderPath :: string

definition ECCISAAC_New ::
  "(byte list \<Rightarrow> string) \<Rightarrow> (byte list \<Rightarrow> byte list) \<Rightarrow> jsval list \<Rightarrow> js_error + ECCISAAC" where
  "ECCISAAC_New Buffer_toString sha3_256 info =
     (if HasInstance (info_at info 0)
      then
        (let bufferData = Data (info_at info 0);
             digest = key_digest sha3_256 bufferData;
             folder =
               (if IsUndefined (info_at info 1) then ''./''
                else
                  (let str = from_c_str (Utf8Value Buffer_toString (info_at info 1)) in
                   if str \<noteq> [] \<and> last str = CHR ''/'' then str else str @ ''/''))
         in Inr \<lparr> m_key = digest, m_folderPath = folder \<rparr>)
      else Inl DiskKeyBufferNotProvided)"

section \<open>Stand-ins for the collaborators\<close>

text \<open>
  Small executable instances of the library parts, used to run the model on concrete
  inputs: a counter-based generator, a shift that reduces its count modulo 32 (as a
  32-bit shift instruction does), and a cipher that appends half the key as its tag.
\<close>

definition demo_seed :: "uint64 \<Rightarrow> uint64" where
  "demo_seed seed = seed"

definition demo_next :: "uint64 \<Rightarrow> uint64 \<times> uint64" where
  "demo_next g = (g XOR 0x0123456789ABCDEF, g + 1)"

definition shl_count_mod_32 :: "nat \<Rightarrow> uint64" where
  "shl_count_mod_32 s = scast (push_bit (s mod 32) (0xFF :: 32 word))"

definition demo_gcm_enc :: "byte list \<Rightarrow> byte list \<Rightarrow> string + byte list" where
  "demo_gcm_enc key message =
     (if length key = 32 then Inr (message @ take 16 key) else Inl ''InvalidKeyLength'')"

definition demo_gcm_dec :: "byte list \<Rightarrow> byte list \<Rightarrow> string + byte list" where
  "demo_gcm_dec key cipher =
     (if length key = 32
      then (if 16 \<le> length cipher \<and> drop (length cipher - 16) cipher = take 16 key
            then Inr (take (length cipher - 16) cipher)
            else Inl ''HashVerificationFilter: message hash or MAC not valid'')
      else Inl ''InvalidKeyLength'')"

text \<open>
  A conversion stand-in that renders every byte above 127 as a question mark, a hash
  stand-in with 32-byte output, and three pools: one that has gathered enough once its
  counter reaches 3, one that never has, one whose second attempt throws.
\<close>

definition demo_toString :: "byte list \<Rightarrow> string" where
  "demo_toString b = string_of (map (\<lambda>x. if x < 0x80 then x else 0x3F) b)"

definition demo_sha3 :: "byte list \<Rightarrow> byte list" where
  "demo_sha3 x = take 32 (x @ replicate 32 (of_nat (length x)))"

definition demo_Initialize :: "string \<Rightarrow> nat \<Rightarrow> byte list \<Rightarrow> nat \<Rightarrow> (string + bool) \<times> nat" where
  "demo_Initialize fileId multiplier digest p = (Inr (3 \<le> p + multiplier), p + multiplier)"

definition starved_Initialize :: "string \<Rightarrow> nat \<Rightarrow> byte list \<Rightarrow> nat \<Rightarrow> (string + bool) \<times> nat" where
  "starved_Initialize fileId multiplier digest p = (Inr False, Suc p)"

definition faulty_Initialize :: "string \<Rightarrow> nat \<Rightarrow> byte list \<Rightarrow> nat \<Rightarrow> (string + bool) \<times> nat" where
  "faulty_Initialize fileId multiplier digest p =
     (if multiplier = 1 then (Inl ''hardware entropy source failed'', p) else (Inr False, Suc p))"

text \<open>
  An uppercase hex encoder, a file cipher that prefixes the key to the plaintext, key
  objects that are byte strings, a variant whose public-key validation rejects, four
  disks, and three more pools for \<open>generateKeys\<close>.
\<close>

definition hex_digit :: "nat \<Rightarrow> char" where
  "hex_digit n = ''0123456789ABCDEF'' ! n"

definition hex_encode :: "byte list \<Rightarrow> string" where
  "hex_encode bs = concat (map (\<lambda>b. [hex_digit (unat b div 16), hex_digit (unat b mod 16)]) bs)"

definition demo_fc :: FileCryptopp where
  "demo_fc = \<lparr> readFile = (\<lambda>key stored.
                   if take (length key) stored = key then Some (drop (length key) stored) else None),
               writeFile = (\<lambda>d path key plain. (True, d(path \<mapsto> key @ plain))) \<rparr>"

definition demo_ecies :: "(byte list, byte list, nat) ECIES" where
  "demo_ecies =
     \<lparr> Load_private = (\<lambda>s. if s = [] then None else Some s),
       Load_public = (\<lambda>s. if s = [] then None else Some s),
       Save_private = (\<lambda>k. k),
       Save_public = (\<lambda>q. q),
       HexEncoder = hex_encode,
       Decryptor = (\<lambda>p. ([of_nat p, 0x5A], Suc p)),
       Encryptor = (\<lambda>k. map (\<lambda>b. b + 1) k),
       Valid_private = (\<lambda>p k. (k \<noteq> [], p)),
       Valid_public = (\<lambda>p q. (q \<noteq> [], p)) \<rparr>"

definition rejecting_ecies :: "(byte list, byte list, nat) ECIES" where
  "rejecting_ecies = demo_ecies \<lparr> Valid_public := (\<lambda>p q. (False, p)) \<rparr>"

definition wrong_key_disk :: disk where
  "wrong_key_disk = Map.empty(''./.ecies.private.key'' \<mapsto> [9, 9, 0x10, 0x20])"

definition good_disk :: disk where
  "good_disk = Map.empty(''./.ecies.private.key'' \<mapsto> [7, 7, 0x10, 0x20],
                          ''./.ecies.public.key'' \<mapsto> [7, 7, 0x11, 0x21])"

definition absent_public_disk :: disk where
  "absent_public_disk = Map.empty(''./.ecies.private.key'' \<mapsto> [7, 7, 0x10, 0x20])"

definition ready_Initialize :: "string \<Rightarrow> nat \<Rightarrow> nat \<Rightarrow> (string + bool) \<times> nat" where
  "ready_Initialize fileId multiplier p = (Inr True, p)"

definition exhausted_Initialize :: "string \<Rightarrow> nat \<Rightarrow> nat \<Rightarrow> (string + bool) \<times> nat" where
  "exhausted_Initialize fileId multiplier p = (Inr False, Suc p)"

definition broken_Initialize :: "string \<Rightarrow> nat \<Rightarrow> nat \<Rightarrow> (string + bool) \<times> nat" where
  "broken_Initialize fileId multiplier p =
     (if multiplier = 2 then (Inl ''hardware entropy source failed'', p) else (Inr False, Suc p))"

section \<open>Properties of aesxor.cc\<close>

lemma bytesToUInt64_from_shift:
  "bytesToUInt64_from acc bs = push_bit (8 * length bs) acc + bytesToUInt64_from 0 bs"
proof (induction bs arbitrary: acc)
  case Nil
  then show ?case by simp
next
  case (Cons b bs)
  have "bytesToUInt64_from acc (b # bs) = bytesToUInt64_from (push_bit 8 acc + ucast b) bs" by simp
  also have "\<dots> = push_bit (8 * length bs) (push_bit 8 acc + ucast b) + bytesToUInt64_from 0 bs"
    by (rule Cons.IH)
  also have "\<dots> = push_bit (8 * length (b # bs)) acc + (push_bit (8 * length bs) (ucast b) + bytesToUInt64_from 0 bs)"
    by (simp add: push_bit_add push_bit_push_bit add.commute add.assoc)
  also have "push_bit (8 * length bs) (ucast b) + bytesToUInt64_from 0 bs = bytesToUInt64_from 0 (b # bs)"
    using Cons.IH [of "push_bit 8 0 + ucast b"] by simp
  finally show ?case .
qed

lemma bytesToUInt64_from_append:
  "bytesToUInt64_from acc (xs @ ys) = bytesToUInt64_from (bytesToUInt64_from acc xs) ys"
  by (induction xs arbitrary: acc) simp_all

lemma bytesToUInt64_from_forgets:
  assumes "8 \<le> length bs"
  shows "bytesToUInt64_from acc bs = bytesToUInt64_from 0 bs"
proof -
  have "push_bit (8 * length bs) acc = 0"
    using assms by (intro push_bit_word_beyond) simp
  then show ?thesis using bytesToUInt64_from_shift [of acc bs] by simp
qed

lemma bytesToUInt64_last8:
  "bytesToUInt64 bs = bytesToUInt64 (drop (length bs - 8) bs)"
proof (cases "8 \<le> length bs")
  case True
  have "bytesToUInt64 bs = bytesToUInt64_from 0 (take (length bs - 8) bs @ drop (length bs - 8) bs)"
    by (simp add: bytesToUInt64_def)
  also have "\<dots> = bytesToUInt64_from (bytesToUInt64_from 0 (take (length bs - 8) bs)) (drop (length bs - 8) bs)"
    by (rule bytesToUInt64_from_append)
  also have "\<dots> = bytesToUInt64_from 0 (drop (length bs - 8) bs)"
    using True by (intro bytesToUInt64_from_forgets) simp
  finally show ?thesis by (simp add: bytesToUInt64_def)
next
  case False
  then show ?thesis by simp
qed


lemma unat_bytesToUInt64_from:
  "unat (bytesToUInt64_from acc bs) = foldl (\<lambda>v b. 256 * v + unat b) (unat acc) bs mod 2 ^ 64"
proof (induction bs arbitrary: acc)
  case Nil
  have "unat acc < 2 ^ 64" using unsigned_less [of acc] by simp
  then show ?case by simp
next
  case (Cons b bs)
  have step: "unat (push_bit 8 acc + ucast b :: uint64) = (256 * unat acc + unat b) mod 2 ^ 64"
  proof -
    have u: "unat (ucast b :: uint64) = unat b"
    proof -
      have "unat b < 2 ^ 8" using unsigned_less [of b, where ?'a = nat] by simp
      then show ?thesis by (simp add: unsigned_ucast_eq take_bit_eq_mod)
    qed
    have "unat (push_bit 8 acc + ucast b :: uint64) = (unat (acc * 256) + unat b) mod 2 ^ 64"
      by (simp add: unat_word_ariths(1) push_bit_eq_mult u)
    also have "unat (acc * 256) = (unat acc * 256) mod 2 ^ 64"
      by (simp add: unat_word_ariths(2))
    finally show ?thesis by (simp add: mod_simps mult.commute)
  qed
  have cong: "foldl (\<lambda>v b. 256 * v + unat b) (x mod 2 ^ 64) ys mod 2 ^ 64
            = foldl (\<lambda>v b. 256 * v + unat b) x ys mod 2 ^ 64" for x :: nat and ys :: "byte list"
  proof (induction ys arbitrary: x)
    case Nil
    then show ?case by simp
  next
    case (Cons y ys)
    have "foldl (\<lambda>v b. 256 * v + unat b) (x mod 2 ^ 64) (y # ys) mod 2 ^ 64
        = foldl (\<lambda>v b. 256 * v + unat b) (256 * (x mod 2 ^ 64) + unat y) ys mod 2 ^ 64" by simp
    also have "\<dots> = foldl (\<lambda>v b. 256 * v + unat b) ((256 * (x mod 2 ^ 64) + unat y) mod 2 ^ 64) ys mod 2 ^ 64"
      by (rule Cons.IH [symmetric])
    also have "(256 * (x mod 2 ^ 64) + unat y) mod 2 ^ 64 = (256 * x + unat y) mod 2 ^ 64"
      by (metis mod_add_left_eq mod_mult_right_eq)
    also have "foldl (\<lambda>v b. 256 * v + unat b) ((256 * x + unat y) mod 2 ^ 64) ys mod 2 ^ 64
             = foldl (\<lambda>v b. 256 * v + unat b) (256 * x + unat y) ys mod 2 ^ 64"
      by (rule Cons.IH)
    finally show ?case by simp
  qed
  have "unat (bytesToUInt64_from acc (b # bs))
      = unat (bytesToUInt64_from (push_bit 8 acc + ucast b) bs)" by simp
  also have "\<dots> = foldl (\<lambda>v b. 256 * v + unat b) (unat (push_bit 8 acc + ucast b :: uint64)) bs mod 2 ^ 64"
    by (rule Cons.IH)
  also have "\<dots> = foldl (\<lambda>v b. 256 * v + unat b) ((256 * unat acc + unat b) mod 2 ^ 64) bs mod 2 ^ 64"
    by (simp only: step)
  also have "\<dots> = foldl (\<lambda>v b. 256 * v + unat b) (256 * unat acc + unat b) bs mod 2 ^ 64"
    by (rule cong)
  finally show ?case by simp
qed

lemma unat_bytesToUInt64: "unat (bytesToUInt64 bs) = big_endian_value bs mod 2 ^ 64"
  by (simp add: bytesToUInt64_def big_endian_value_def unat_bytesToUInt64_from)

lemma length_word_bytes: "length (word_bytes wide w) = 8"
  by (simp add: word_bytes_def)

lemma length_uInt64toBytes: "length (uInt64toBytes wide ws) = 8 * length ws"
  by (induction ws) (simp_all add: length_word_bytes)

lemma length_draw: "length (fst (draw pcg_next k g)) = k"
proof (induction k arbitrary: g)
  case 0
  then show ?case by simp
next
  case (Suc k)
  obtain w g' where n: "pcg_next g = (w, g')" by (cases "pcg_next g")
  obtain ws g'' where d: "draw pcg_next k g' = (ws, g'')" by (cases "draw pcg_next k g'")
  from Suc.IH [of g'] d have "length ws = k" by simp
  then show ?case by (simp add: n d)
qed

lemma length_getRandom:
  "length (fst (getRandom pcg_next wide g len)) = 8 * ((len + 7) div 8)"
proof -
  have n: "(if len mod 8 = 0 then len div 8 else len div 8 + 1) = (len + 7) div 8"
    by presburger
  obtain ws g' where d: "draw pcg_next ((len + 7) div 8) g = (ws, g')"
    by (cases "draw pcg_next ((len + 7) div 8) g")
  then have "length ws = (len + 7) div 8"
    using length_draw [of pcg_next "(len + 7) div 8" g] by simp
  then show ?thesis
    unfolding getRandom_def Let_def n by (simp add: d length_uInt64toBytes)
qed

lemma getRandom_covers: "len \<le> length (fst (getRandom pcg_next wide g len))"
  unfolding length_getRandom by presburger

lemma map2_xor_twice:
  "length (r :: byte list) = length m \<Longrightarrow> map2 (XOR) (map2 (XOR) m r) r = m"
proof (induction m r rule: list_induct2')
  case (4 x xs y ys)
  then show ?case by (simp add: xor.assoc)
qed simp_all

lemma length_whitening:
  "length (whitening pcg_next wide obj n) = 8 * ((n + 7) div 8)"
  by (simp add: whitening_def length_getRandom)

lemma length_whitening_aligned:
  "n mod 8 = 0 \<Longrightarrow> length (whitening pcg_next wide obj n) = n"
  unfolding length_whitening by presburger

lemma xorRandomData_aligned:
  assumes "length input mod 8 = 0"
  shows "xorRandomData pcg_next wide obj input
       = Defined (map2 (XOR) input (whitening pcg_next wide obj (length input)),
                  obj\<lparr>rng := snd (getRandom pcg_next wide (rng obj) (length input))\<rparr>)"
proof -
  obtain stored g' where g: "getRandom pcg_next wide (rng obj) (length input) = (stored, g')"
    by (cases "getRandom pcg_next wide (rng obj) (length input)")
  then have w: "whitening pcg_next wide obj (length input) = stored"
    by (simp add: whitening_def)
  with assms have len: "length stored = length input"
    using length_whitening_aligned [of "length input" pcg_next wide obj] by simp
  then have "store_at (replicate (length input) 0) stored = stored"
    by (simp add: store_at_def)
  then show ?thesis
    using len by (simp add: xorRandomData_def g w Let_def)
qed

lemma xorRandomData_overrun:
  assumes "length input mod 8 \<noteq> 0"
  shows "xorRandomData pcg_next wide obj input = HeapOverrun"
proof -
  obtain stored g' where g: "getRandom pcg_next wide (rng obj) (length input) = (stored, g')"
    by (cases "getRandom pcg_next wide (rng obj) (length input)")
  then have "length stored = 8 * ((length input + 7) div 8)"
    using length_getRandom [of pcg_next wide "rng obj" "length input"] by simp
  with assms have "length input < length stored" by presburger
  then show ?thesis by (simp add: xorRandomData_def g)
qed

lemma encrypt_aligned:
  assumes "length k = 32" and "length m mod 8 = 0"
  shows "encrypt pcg_next wide gcm_enc obj [Buffer k, Buffer m]
    = (case gcm_enc k (map2 (XOR) m (whitening pcg_next wide obj (length m))) of
         Inl what \<Rightarrow>
           Defined (Inl (PrimitiveFault what),
                    obj\<lparr>rng := snd (getRandom pcg_next wide (rng obj) (length m))\<rparr>)
       | Inr c \<Rightarrow>
           Defined (Inr c, obj\<lparr>rng := snd (getRandom pcg_next wide (rng obj) (length m))\<rparr>))"
  using assms
  by (simp add: encrypt_def info_at_def encryptBlock_def xorRandomData_aligned split: sum.splits)

lemma encrypt_overrun:
  assumes "length k = 32" and "length m mod 8 \<noteq> 0"
  shows "encrypt pcg_next wide gcm_enc obj [Buffer k, Buffer m] = HeapOverrun"
  using assms by (simp add: encrypt_def info_at_def xorRandomData_overrun)

lemma decrypt_accepted:
  assumes "length k = 32" and "gcm_dec k c = Inr t"
  shows "decrypt pcg_next wide gcm_dec obj [Buffer k, Buffer c]
    = (if length t mod 8 = 0
       then Defined (Inr (map2 (XOR) t (whitening pcg_next wide obj (length t))),
                     obj\<lparr>rng := snd (getRandom pcg_next wide (rng obj) (length t))\<rparr>)
       else HeapOverrun)"
  using assms
  by (simp add: decrypt_def info_at_def decryptBlock_def xorRandomData_aligned
      xorRandomData_overrun)

lemma decrypt_refused:
  assumes "length k = 32" and "gcm_dec k c = Inl what"
  shows "decrypt pcg_next wide gcm_dec obj [Buffer k, Buffer c]
    = Defined (Inl (PrimitiveFault what), obj)"
  using assms by (simp add: decrypt_def info_at_def decryptBlock_def)

text \<open>
  On messages whose length is a multiple of 8 the whitening stays inside its vector,
  and the round trip holds: for a 32-byte key, a cipher that decrypts what it
  encrypted, and a decrypting instance whose whitening stream equals the encrypting
  one's.
\<close>

lemma symmetric_roundtrip_aligned:
  assumes key: "length k = 32"
    and aligned: "length m mod 8 = 0"
    and enc: "encrypt pcg_next wide gcm_enc objE [Buffer k, Buffer m] = Defined (Inr c, objE')"
    and aead: "\<And>x y. gcm_enc k x = Inr y \<Longrightarrow> gcm_dec k y = Inr x"
    and sync: "whitening pcg_next wide objD (length m) = whitening pcg_next wide objE (length m)"
  shows "decrypt pcg_next wide gcm_dec objD [Buffer k, Buffer c]
       = Defined (Inr m, objD\<lparr>rng := snd (getRandom pcg_next wide (rng objD) (length m))\<rparr>)"
proof -
  let ?r = "whitening pcg_next wide objE (length m)"
  let ?t = "map2 (XOR) m ?r"
  have len_r: "length ?r = length m" using aligned by (rule length_whitening_aligned)
  then have len_t: "length ?t = length m" by simp
  from enc key aligned have "gcm_enc k ?t = Inr c"
    by (simp add: encrypt_aligned split: sum.splits)
  then have dec: "gcm_dec k c = Inr ?t" by (rule aead)
  note d = decrypt_accepted [where gcm_dec = gcm_dec and pcg_next = pcg_next and wide = wide
      and obj = objD, OF key dec]
  have "decrypt pcg_next wide gcm_dec objD [Buffer k, Buffer c]
      = Defined (Inr (map2 (XOR) ?t ?r),
                 objD\<lparr>rng := snd (getRandom pcg_next wide (rng objD) (length m))\<rparr>)"
    unfolding d len_t sync using aligned by simp
  also have "map2 (XOR) ?t ?r = m" using len_r by (rule map2_xor_twice)
  finally show ?thesis .
qed

lemma symmetric_roundtrip_aligned_example:
  "encrypt demo_next shl_count_mod_32 demo_gcm_enc (AESXOR256_ctor demo_seed 42)
     [Buffer (replicate 32 7), Buffer [1, 2, 3, 4, 5, 6, 7, 8]]
     = Defined (Inr ([196, 207, 168, 141, 5, 6, 7, 9] @ replicate 16 7), \<lparr>rng = 43\<rparr>)
   \<and> decrypt demo_next shl_count_mod_32 demo_gcm_dec \<lparr>rng = 42\<rparr>
     [Buffer (replicate 32 7), Buffer ([196, 207, 168, 141, 5, 6, 7, 9] @ replicate 16 7)]
     = Defined (Inr [1, 2, 3, 4, 5, 6, 7, 8], \<lparr>rng = 43\<rparr>)"
  by code_simp

text \<open>
  C1. The round trip \<open>decrypt (k, encrypt (k, m)) = m\<close> is claimed for every message
  \<open>m\<close>. For a 3-byte message under a 32-byte key the whitening of \<open>encrypt\<close> stores
  8 bytes into its 3-byte vector: the call overruns the heap and returns no cipher
  to decrypt. \<open>decrypt\<close> does the same on a cipher that holds 3 whitened bytes.
\<close>

theorem roundtrip_overruns_on_3_bytes:
  "length (replicate 32 (7 :: byte)) = 32
   \<and> length (whitening demo_next shl_count_mod_32 (AESXOR256_ctor demo_seed 42)
               (length [1, 2, 3 :: byte])) = 8
   \<and> encrypt demo_next shl_count_mod_32 demo_gcm_enc (AESXOR256_ctor demo_seed 42)
        [Buffer (replicate 32 7), Buffer [1, 2, 3]] = HeapOverrun
   \<and> demo_gcm_dec (replicate 32 7) ([196, 207, 168] @ replicate 16 7) = Inr [196, 207, 168]
   \<and> decrypt demo_next shl_count_mod_32 demo_gcm_dec (AESXOR256_ctor demo_seed 42)
        [Buffer (replicate 32 7), Buffer ([196, 207, 168] @ replicate 16 7)] = HeapOverrun"
  by code_simp

text \<open>
  C10. The generator of a constructed instance is seeded with \<open>bytesToUInt64\<close> of the
  seed buffer, which is the big-endian value of the buffer modulo \<open>2^64\<close>. So two
  buffers with the same final 8 bytes give the same seed and equal instances: they
  draw the same whitening stream, and \<open>encrypt\<close> and \<open>decrypt\<close> behave identically
  on them.
\<close>

theorem seed_depends_on_last_8_bytes:
  assumes last8: "drop (length a - 8) a = drop (length b - 8) b"
  shows "unat (bytesToUInt64 a) = big_endian_value a mod 2 ^ 64
       \<and> AESXOR256_New pcg_seed [Buffer a] = Inr \<lparr> rng = pcg_seed (bytesToUInt64 a) \<rparr>
       \<and> AESXOR256_New pcg_seed [Buffer b] = Inr \<lparr> rng = pcg_seed (bytesToUInt64 b) \<rparr>
       \<and> bytesToUInt64 a = bytesToUInt64 b
       \<and> AESXOR256_New pcg_seed [Buffer a] = AESXOR256_New pcg_seed [Buffer b]
       \<and> (\<exists>objA objB.
             AESXOR256_New pcg_seed [Buffer a] = Inr objA
           \<and> AESXOR256_New pcg_seed [Buffer b] = Inr objB
           \<and> whitening pcg_next wide objA n = whitening pcg_next wide objB n
           \<and> encrypt pcg_next wide gcm_enc objA info = encrypt pcg_next wide gcm_enc objB info
           \<and> decrypt pcg_next wide gcm_dec objA info = decrypt pcg_next wide gcm_dec objB info)"
proof -
  have seed: "bytesToUInt64 a = bytesToUInt64 b"
    using bytesToUInt64_last8 [of a] bytesToUInt64_last8 [of b] last8 by simp
  have new: "AESXOR256_New pcg_seed [Buffer x] = Inr \<lparr> rng = pcg_seed (bytesToUInt64 x) \<rparr>" for x
    by (simp add: AESXOR256_New_def AESXOR256_ctor_def info_at_def)
  show ?thesis
    using seed unat_bytesToUInt64 [of a] by (simp add: new)
qed

theorem seed_depends_on_last_8_bytes_witness:
  "drop (length [1, 2, 3, 4, 5, 6, 7, 8, 9 :: byte] - 8) [1, 2, 3, 4, 5, 6, 7, 8, 9 :: byte]
     = drop (length [200, 2, 3, 4, 5, 6, 7, 8, 9 :: byte] - 8) [200, 2, 3, 4, 5, 6, 7, 8, 9 :: byte]
   \<and> bytesToUInt64 [1, 2, 3, 4, 5, 6, 7, 8, 9] = 0x0203040506070809
   \<and> bytesToUInt64 [200, 2, 3, 4, 5, 6, 7, 8, 9] = 0x0203040506070809
   \<and> AESXOR256_New demo_seed [Buffer [1, 2, 3, 4, 5, 6, 7, 8, 9]]
       = Inr \<lparr> rng = demo_seed 0x0203040506070809 \<rparr>
   \<and> AESXOR256_New demo_seed [Buffer [200, 2, 3, 4, 5, 6, 7, 8, 9]]
       = Inr \<lparr> rng = demo_seed 0x0203040506070809 \<rparr>
   \<and> AESXOR256_New demo_seed [Buffer [1, 2, 3, 4, 5, 6, 7, 8, 10]]
       = Inr \<lparr> rng = demo_seed 0x020304050607080A \<rparr>"
proof -
  have h: "drop (length [1, 2, 3, 4, 5, 6, 7, 8, 9 :: byte] - 8) [1, 2, 3, 4, 5, 6, 7, 8, 9 :: byte]
     = drop (length [200, 2, 3, 4, 5, 6, 7, 8, 9 :: byte] - 8) [200, 2, 3, 4, 5, 6, 7, 8, 9 :: byte]"
    by simp
  have v: "bytesToUInt64 [1, 2, 3, 4, 5, 6, 7, 8, 9] = 0x0203040506070809"
    "bytesToUInt64 [1, 2, 3, 4, 5, 6, 7, 8, 10] = 0x020304050607080A"
    by code_simp+
  note t = seed_depends_on_last_8_bytes [OF h, of demo_seed]
  from t have eq: "bytesToUInt64 [1, 2, 3, 4, 5, 6, 7, 8, 9] = bytesToUInt64 [200, 2, 3, 4, 5, 6, 7, 8, 9]"
    by blast
  from t have a: "AESXOR256_New demo_seed [Buffer [1, 2, 3, 4, 5, 6, 7, 8, 9]]
       = Inr \<lparr> rng = demo_seed (bytesToUInt64 [1, 2, 3, 4, 5, 6, 7, 8, 9]) \<rparr>"
    and b: "AESXOR256_New demo_seed [Buffer [200, 2, 3, 4, 5, 6, 7, 8, 9]]
       = Inr \<lparr> rng = demo_seed (bytesToUInt64 [200, 2, 3, 4, 5, 6, 7, 8, 9]) \<rparr>"
    by blast+
  have h': "drop (length [1, 2, 3, 4, 5, 6, 7, 8, 10 :: byte] - 8) [1, 2, 3, 4, 5, 6, 7, 8, 10 :: byte]
     = drop (length [1, 2, 3, 4, 5, 6, 7, 8, 10 :: byte] - 8) [1, 2, 3, 4, 5, 6, 7, 8, 10 :: byte]"
    by simp
  from seed_depends_on_last_8_bytes [OF h', of demo_seed]
  have c: "AESXOR256_New demo_seed [Buffer [1, 2, 3, 4, 5, 6, 7, 8, 10]]
       = Inr \<lparr> rng = demo_seed (bytesToUInt64 [1, 2, 3, 4, 5, 6, 7, 8, 10]) \<rparr>"
    by blast
  show ?thesis
    using h v(1) eq [symmetric] a b c unfolding v(2) by (simp only: v(1))
qed

text \<open>
  C3. The stream generation is claimed to fill exactly the \<open>n\<close> bytes of its output
  buffer and to write nothing outside it. \<open>getRandom\<close> stores all eight bytes of
  every word it draws: asked for 1 byte it stores 8, seven of them past the end of the
  1-byte buffer.
\<close>

theorem getRandom_stores_past_buffer:
  "length (fst (getRandom pcg_next wide g 1)) = 8"
  by (simp add: length_getRandom)

text \<open>
  The bytes 4 to 7 of a word come from the shifts the language leaves undefined. Where
  the shift reduces its count modulo 32, or yields 0, they are not the bytes of the
  word.
\<close>

lemma word_bytes_count_mod_32:
  "word_bytes shl_count_mod_32 0x0102030405060708 = [8, 7, 6, 5, 0, 0, 0, 1]"
  by code_simp

lemma word_bytes_zero_beyond:
  "word_bytes (\<lambda>s. 0) 0x0102030405060708 = [8, 7, 6, 5, 0, 0, 0, 0]"
  by code_simp


text \<open>
  The other cases of the two methods: a key that is not 32 bytes long is refused by
  both before anything else; a fault of the cipher in \<open>decrypt\<close> is thrown to the
  caller with the generator untouched; \<open>decrypt\<close> returns a plaintext only for a
  32-byte key and an input the cipher accepted.
\<close>

lemma cipher_faults_are_errors_aligned:
  "(length k \<noteq> 32 \<longrightarrow>
      encrypt pcg_next wide gcm_enc obj [Buffer k, Buffer m] = Defined (Inl KeyNot32Bytes, obj)
    \<and> decrypt pcg_next wide gcm_dec obj [Buffer k, Buffer c] = Defined (Inl KeyNot32Bytes, obj))
 \<and> (length k = 32 \<and> length m mod 8 = 0
      \<and> gcm_enc k (map2 (XOR) m (whitening pcg_next wide obj (length m))) = Inl what \<longrightarrow>
      encrypt pcg_next wide gcm_enc obj [Buffer k, Buffer m]
        = Defined (Inl (PrimitiveFault what),
                   obj\<lparr>rng := snd (getRandom pcg_next wide (rng obj) (length m))\<rparr>))
 \<and> (length k = 32 \<and> length m mod 8 \<noteq> 0 \<longrightarrow>
      encrypt pcg_next wide gcm_enc obj [Buffer k, Buffer m] = HeapOverrun)
 \<and> (length k = 32 \<and> gcm_dec k c = Inl what \<longrightarrow>
      decrypt pcg_next wide gcm_dec obj [Buffer k, Buffer c]
        = Defined (Inl (PrimitiveFault what), obj))
 \<and> (\<forall>p obj'. decrypt pcg_next wide gcm_dec obj info = Defined (Inr p, obj') \<longrightarrow>
      length (Data (info_at info 0)) = 32
    \<and> (\<exists>t. gcm_dec (Data (info_at info 0)) (Data (info_at info 1)) = Inr t))"
proof (intro conjI impI allI)
  assume "length k \<noteq> 32"
  then show "encrypt pcg_next wide gcm_enc obj [Buffer k, Buffer m] = Defined (Inl KeyNot32Bytes, obj)"
    by (simp add: encrypt_def info_at_def)
next
  assume "length k \<noteq> 32"
  then show "decrypt pcg_next wide gcm_dec obj [Buffer k, Buffer c] = Defined (Inl KeyNot32Bytes, obj)"
    by (simp add: decrypt_def info_at_def)
next
  assume "length k = 32 \<and> length m mod 8 = 0
      \<and> gcm_enc k (map2 (XOR) m (whitening pcg_next wide obj (length m))) = Inl what"
  then show "encrypt pcg_next wide gcm_enc obj [Buffer k, Buffer m]
        = Defined (Inl (PrimitiveFault what),
                   obj\<lparr>rng := snd (getRandom pcg_next wide (rng obj) (length m))\<rparr>)"
    by (simp add: encrypt_aligned)
next
  assume "length k = 32 \<and> length m mod 8 \<noteq> 0"
  then show "encrypt pcg_next wide gcm_enc obj [Buffer k, Buffer m] = HeapOverrun"
    by (simp add: encrypt_overrun)
next
  assume "length k = 32 \<and> gcm_dec k c = Inl what"
  then show "decrypt pcg_next wide gcm_dec obj [Buffer k, Buffer c]
        = Defined (Inl (PrimitiveFault what), obj)"
    by (simp add: decrypt_refused)
next
  fix p obj'
  assume r: "decrypt pcg_next wide gcm_dec obj info = Defined (Inr p, obj')"
  then show "length (Data (info_at info 0)) = 32"
    by (simp add: decrypt_def Let_def split: if_splits)
next
  fix p obj'
  assume r: "decrypt pcg_next wide gcm_dec obj info = Defined (Inr p, obj')"
  then show "\<exists>t. gcm_dec (Data (info_at info 0)) (Data (info_at info 1)) = Inr t"
    by (cases "gcm_dec (Data (info_at info 0)) (Data (info_at info 1))")
       (simp_all add: decrypt_def decryptBlock_def Let_def split: if_splits)
qed

section \<open>Properties of rng.cc, seifsha3.cc and the key digest\<close>

lemma traced_loop:
  assumes "entropy_loop (\<lambda>multiplier. traced Initialize fileId multiplier digest) m (p, L) = (r, (p', L'))"
    and "m \<le> 6"
  shows "\<exists>k fin. m \<le> k \<and> k \<le> 6
            \<and> L' = L @ map (\<lambda>i. call_of fileId digest i (Inr False)) [m..<k] @ fin
            \<and> (case r of
                  Inl what \<Rightarrow> k < 6 \<and> fin = [call_of fileId digest k (Inl what)]
                | Inr j \<Rightarrow> j = k \<and> fin = (if k < 6 then [call_of fileId digest k (Inr True)] else []))"
  using assms
proof (induction "6 - m" arbitrary: m p L)
  case 0
  then have m: "m = 6" by simp
  from "0.prems"(1) have "r = Inr 6" "L' = L"
    by (simp_all add: m MAX_ENTROPY_GEN_MULTIPLIER_def)
  then show ?case by (intro exI [of _ 6] exI [of _ "[]"]) (simp add: m)
next
  case (Suc n)
  then have m: "m < 6" by simp
  obtain r0 p0 where a: "Initialize fileId m digest p = (r0, p0)"
    by (cases "Initialize fileId m digest p")
  then have t: "traced Initialize fileId m digest (p, L) = (r0, (p0, L @ [call_of fileId digest m r0]))"
    by (simp add: traced_def call_of_def)
  show ?case
  proof (cases r0)
    case (Inl what)
    with Suc.prems(1) m t have "r = Inl what" "L' = L @ [call_of fileId digest m (Inl what)]"
      by (simp_all add: MAX_ENTROPY_GEN_MULTIPLIER_def)
    then show ?thesis using m
      by (intro exI [of _ m] exI [of _ "[call_of fileId digest m (Inl what)]"]) simp
  next
    case (Inr enough)
    show ?thesis
    proof (cases enough)
      case True
      with Inr Suc.prems(1) m t have "r = Inr m" "L' = L @ [call_of fileId digest m (Inr True)]"
        by (simp_all add: MAX_ENTROPY_GEN_MULTIPLIER_def)
      then show ?thesis using m
        by (intro exI [of _ m] exI [of _ "[call_of fileId digest m (Inr True)]"]) simp
    next
      case False
      with Inr Suc.prems(1) m t
      have rec: "entropy_loop (\<lambda>multiplier. traced Initialize fileId multiplier digest) (Suc m)
                   (p0, L @ [call_of fileId digest m (Inr False)]) = (r, (p', L'))"
        by (simp add: MAX_ENTROPY_GEN_MULTIPLIER_def)
      have "n = 6 - Suc m" using Suc.hyps(2) by simp
      from Suc.hyps(1) [OF this rec] m
      obtain k fin where k: "Suc m \<le> k" "k \<le> 6"
        and L': "L' = (L @ [call_of fileId digest m (Inr False)])
                      @ map (\<lambda>i. call_of fileId digest i (Inr False)) [Suc m..<k] @ fin"
        and r: "(case r of
                  Inl what \<Rightarrow> k < 6 \<and> fin = [call_of fileId digest k (Inl what)]
                | Inr j \<Rightarrow> j = k \<and> fin = (if k < 6 then [call_of fileId digest k (Inr True)] else []))"
        by auto
      have "[m..<k] = m # [Suc m..<k]" using k by (simp add: upt_conv_Cons)
      then have "L' = L @ map (\<lambda>i. call_of fileId digest i (Inr False)) [m..<k] @ fin"
        using L' by simp
      then show ?thesis using k r by (intro exI [of _ k] exI [of _ fin]) simp
    qed
  qed
qed

lemma bytes_of_string_of: "bytes_of (string_of bs) = bs"
proof -
  have "of_nat (of_char (char_of (unat b) :: char) :: nat) = b" for b :: byte
  proof -
    have "unat b < 256" using unsigned_less [of b, where ?'a = nat] by simp
    then show ?thesis by simp
  qed
  then show ?thesis by (simp add: bytes_of_def string_of_def map_idI)
qed

lemma length_store_at: "length (store_at v d) = length v"
  by (simp add: store_at_def)

lemma store_at_full: "length d = length v \<Longrightarrow> store_at v d = d"
  by (simp add: store_at_def)

lemma key_digest_eq:
  "key_digest sha3_256 buf =
     (if length buf < 32 then store_at (replicate 32 0) (sha3_256 buf) else buf)"
  by (simp add: key_digest_def hashString_def bytes_of_string_of DIGESTSIZE_def)

text \<open>What a run of \<open>RNG::initialize\<close> on a key buffer does, seen through the trace.\<close>

lemma initialize_trace:
  assumes run: "RNG_initialize Buffer_toString sha3_256 (traced Initialize) (Buffer buf # rest) (p, []) = (res, (p', log))"
  shows "\<exists>k fin. k \<le> 6
          \<and> log = map (\<lambda>i. call_of (fileId_arg Buffer_toString (info_at (Buffer buf # rest) 1)) (key_digest sha3_256 buf) i (Inr False)) [0..<k] @ fin
          \<and> (k = 6 \<and> fin = [] \<and> res = Inl NotEnoughEntropy
             \<or> k < 6 \<and> fin = [call_of (fileId_arg Buffer_toString (info_at (Buffer buf # rest) 1)) (key_digest sha3_256 buf) k (Inr True)] \<and> res = Inr True
             \<or> (\<exists>what. k < 6 \<and> fin = [call_of (fileId_arg Buffer_toString (info_at (Buffer buf # rest) 1)) (key_digest sha3_256 buf) k (Inl what)]
                    \<and> res = Inl (HardwareFault what)))"
proof -
  let ?fileId = "fileId_arg Buffer_toString (info_at (Buffer buf # rest) 1)"
  let ?digest = "key_digest sha3_256 buf"
  obtain r s where loop: "entropy_loop (\<lambda>multiplier. traced Initialize ?fileId multiplier ?digest) 0 (p, []) = (r, s)"
    by (cases "entropy_loop (\<lambda>multiplier. traced Initialize ?fileId multiplier ?digest) 0 (p, [])")
  from run loop have s: "s = (p', log)"
    and res: "res = (case r of Inl what \<Rightarrow> Inl (HardwareFault what)
                     | Inr multiplier \<Rightarrow> if multiplier = 6 then Inl NotEnoughEntropy else Inr True)"
    by (auto simp add: RNG_initialize_def info_at_def Let_def MAX_ENTROPY_GEN_MULTIPLIER_def split: sum.splits if_splits)
  from traced_loop [OF loop [unfolded s]]
  obtain k fin where k: "k \<le> 6"
    and log: "log = map (\<lambda>i. call_of ?fileId ?digest i (Inr False)) [0..<k] @ fin"
    and r: "(case r of
              Inl what \<Rightarrow> k < 6 \<and> fin = [call_of ?fileId ?digest k (Inl what)]
            | Inr j \<Rightarrow> j = k \<and> fin = (if k < 6 then [call_of ?fileId ?digest k (Inr True)] else []))"
    by auto
  show ?thesis
  proof (cases r)
    case (Inl what)
    with r res k log show ?thesis by (intro exI [of _ k] exI [of _ fin]) auto
  next
    case (Inr j)
    with r res k log show ?thesis by (intro exI [of _ k] exI [of _ fin]) (cases "k < 6"; simp)
  qed
qed

lemma trace_shape:
  assumes "k \<le> (6::nat)"
    and "log = map (\<lambda>i. call_of f dg i (Inr False)) [0..<k] @ fin"
    and "fin = [] \<or> fin = [call_of f dg k r]"
  shows "map c_multiplier log = [0..<length log]"
    and "\<forall>c \<in> set (butlast log). c_outcome c = Inr False"
    and "\<forall>c \<in> set log. c_digest c = dg \<and> c_fileId c = f \<and> c_multiplier c \<le> k"
proof -
  have m: "map c_multiplier (map (\<lambda>i. call_of f dg i (Inr False)) [0..<k]) = [0..<k]"
    by (simp add: call_of_def comp_def map_idI)
  from assms(3) show "map c_multiplier log = [0..<length log]"
  proof
    assume "fin = []"
    then show ?thesis using assms(2) m by simp
  next
    assume "fin = [call_of f dg k r]"
    then show ?thesis using assms(2) m by (simp add: call_of_def)
  qed
  from assms(3) show "\<forall>c \<in> set (butlast log). c_outcome c = Inr False"
  proof
    assume "fin = []"
    then have "set (butlast log) \<subseteq> set (map (\<lambda>i. call_of f dg i (Inr False)) [0..<k])"
      using assms(2) by (auto dest: in_set_butlastD)
    then show ?thesis by (auto simp add: call_of_def)
  next
    assume "fin = [call_of f dg k r]"
    then show ?thesis using assms(2) by (auto simp add: call_of_def butlast_append)
  qed
  from assms(2,3) show "\<forall>c \<in> set log. c_digest c = dg \<and> c_fileId c = f \<and> c_multiplier c \<le> k"
    by (auto simp add: call_of_def)
qed

text \<open>
  C4. A run of \<open>initialize\<close> on a key buffer calls the entropy-gathering attempt at
  least once and at most 6 times, with the multipliers 0, 1, 2, ... in order. Every
  attempt but the last reported failure, so the run stops at the first attempt that
  reports success, and it returns success exactly when the last attempt reported
  success. When the last attempt reported failure, all 6 attempts were made and the
  run throws the entropy error.
\<close>

theorem initialize_entropy_attempts:
  assumes run: "RNG_initialize Buffer_toString sha3_256 (traced Initialize) (Buffer buf # rest) (p, []) = (res, (p', log))"
  shows "log \<noteq> [] \<and> length log \<le> 6 \<and> map c_multiplier log = [0..<length log]
       \<and> (\<forall>c \<in> set (butlast log). c_outcome c = Inr False)
       \<and> (res = Inr True \<longleftrightarrow> c_outcome (last log) = Inr True)
       \<and> (res = Inl NotEnoughEntropy \<longleftrightarrow> c_outcome (last log) = Inr False)
       \<and> (c_outcome (last log) = Inr False \<longrightarrow> length log = 6)"
proof -
  let ?f = "fileId_arg Buffer_toString (info_at (Buffer buf # rest) 1)"
  let ?dg = "key_digest sha3_256 buf"
  from initialize_trace [OF run]
  obtain k fin where k: "k \<le> 6"
    and log: "log = map (\<lambda>i. call_of ?f ?dg i (Inr False)) [0..<k] @ fin"
    and cases: "k = 6 \<and> fin = [] \<and> res = Inl NotEnoughEntropy
             \<or> k < 6 \<and> fin = [call_of ?f ?dg k (Inr True)] \<and> res = Inr True
             \<or> (\<exists>what. k < 6 \<and> fin = [call_of ?f ?dg k (Inl what)] \<and> res = Inl (HardwareFault what))"
    by blast
  from cases obtain r where fin: "fin = [] \<or> fin = [call_of ?f ?dg k r]" by blast
  note shape = trace_shape [OF k log fin]
  from cases have rest: "log \<noteq> [] \<and> length log \<le> 6
       \<and> (res = Inr True \<longleftrightarrow> c_outcome (last log) = Inr True)
       \<and> (res = Inl NotEnoughEntropy \<longleftrightarrow> c_outcome (last log) = Inr False)
       \<and> (c_outcome (last log) = Inr False \<longrightarrow> length log = 6)"
  proof (elim disjE conjE exE)
    assume a: "k = 6" "fin = []" "res = Inl NotEnoughEntropy"
    have "[0..<6] = [0, 1, 2, 3, 4, Suc 4]" by (simp add: upt_rec)
    then show ?thesis using a log by (simp add: call_of_def)
  next
    assume a: "k < 6" "fin = [call_of ?f ?dg k (Inr True)]" "res = Inr True"
    then show ?thesis using log by (simp add: call_of_def)
  next
    fix what
    assume a: "k < 6" "fin = [call_of ?f ?dg k (Inl what)]" "res = Inl (HardwareFault what)"
    then show ?thesis using log by (simp add: call_of_def)
  qed
  with shape(1,2) show ?thesis by blast
qed

theorem initialize_entropy_attempts_witness:
  "RNG_initialize demo_toString demo_sha3 (traced demo_Initialize) [Buffer [1, 2, 3]] (0, [])
     = (Inr True, (3, [call_of ''./'' (demo_sha3 [1, 2, 3]) 0 (Inr False),
                       call_of ''./'' (demo_sha3 [1, 2, 3]) 1 (Inr False),
                       call_of ''./'' (demo_sha3 [1, 2, 3]) 2 (Inr True)]))
   \<and> map c_multiplier [call_of ''./'' (demo_sha3 [1, 2, 3]) 0 (Inr False),
                       call_of ''./'' (demo_sha3 [1, 2, 3]) 1 (Inr False),
                       call_of ''./'' (demo_sha3 [1, 2, 3]) 2 (Inr True)] = [0, 1, 2]
   \<and> fst (RNG_initialize demo_toString demo_sha3 (traced starved_Initialize) [Buffer [1, 2, 3]] (0, []))
       = Inl NotEnoughEntropy
   \<and> map c_multiplier (snd (snd (RNG_initialize demo_toString demo_sha3 (traced starved_Initialize) [Buffer [1, 2, 3]] (0, []))))
       = [0, 1, 2, 3, 4, 5]
   \<and> map c_outcome (snd (snd (RNG_initialize demo_toString demo_sha3 (traced starved_Initialize) [Buffer [1, 2, 3]] (0, []))))
       = [Inr False, Inr False, Inr False, Inr False, Inr False, Inr False]"
proof -
  let ?L = "[call_of ''./'' (demo_sha3 [1, 2, 3]) 0 (Inr False),
             call_of ''./'' (demo_sha3 [1, 2, 3]) 1 (Inr False),
             call_of ''./'' (demo_sha3 [1, 2, 3]) 2 (Inr True)]"
  have run: "RNG_initialize demo_toString demo_sha3 (traced demo_Initialize) [Buffer [1, 2, 3]] (0, [])
     = (Inr True, (3, ?L))"
    by code_simp
  have starved: "RNG_initialize demo_toString demo_sha3 (traced starved_Initialize) [Buffer [1, 2, 3]] (0, [])
     = (Inl NotEnoughEntropy, (6, map (\<lambda>i. call_of ''./'' (demo_sha3 [1, 2, 3]) i (Inr False)) [0, 1, 2, 3, 4, 5]))"
    by code_simp
  from initialize_entropy_attempts [OF run]
  have a: "map c_multiplier ?L = [0..<length ?L]" by blast
  have "[0..<length ?L] = [0, 1, 2]" by (simp add: upt_rec)
  with a have a': "map c_multiplier ?L = [0, 1, 2]" by simp
  have c: "map c_multiplier (map (\<lambda>i. call_of ''./'' (demo_sha3 [1, 2, 3]) i (Inr False)) [0, 1, 2, 3, 4, 5])
      = [0, 1, 2, 3, 4, 5]"
    "map c_outcome (map (\<lambda>i. call_of ''./'' (demo_sha3 [1, 2, 3]) i (Inr False)) [0, 1, 2, 3, 4, 5 :: nat])
      = [Inr False, Inr False, Inr False, Inr False, Inr False, Inr False]"
    by (simp_all add: call_of_def)
  show ?thesis unfolding starved fst_conv snd_conv using run a' c by blast
qed

text \<open>
  C8. An attempt of \<open>initialize\<close> that throws is the last attempt of the run: no
  attempt at a higher multiplier follows it, and the run throws the error carrying
  the exception's message.
\<close>

theorem initialize_hardware_exception_aborts:
  assumes run: "RNG_initialize Buffer_toString sha3_256 (traced Initialize) (Buffer buf # rest) (p, []) = (res, (p', log))"
  shows "\<forall>c \<in> set log. \<forall>what. c_outcome c = Inl what \<longrightarrow>
           c = last log \<and> res = Inl (HardwareFault what)
         \<and> (\<forall>c' \<in> set log. c_multiplier c' \<le> c_multiplier c)"
proof (intro ballI allI impI)
  fix c what
  assume c: "c \<in> set log" and threw: "c_outcome c = Inl what"
  let ?f = "fileId_arg Buffer_toString (info_at (Buffer buf # rest) 1)"
  let ?dg = "key_digest sha3_256 buf"
  from initialize_trace [OF run]
  obtain k fin where k: "k \<le> 6"
    and log: "log = map (\<lambda>i. call_of ?f ?dg i (Inr False)) [0..<k] @ fin"
    and cases: "k = 6 \<and> fin = [] \<and> res = Inl NotEnoughEntropy
             \<or> k < 6 \<and> fin = [call_of ?f ?dg k (Inr True)] \<and> res = Inr True
             \<or> (\<exists>what. k < 6 \<and> fin = [call_of ?f ?dg k (Inl what)] \<and> res = Inl (HardwareFault what))"
    by blast
  from c threw log have in_tl: "c \<in> set fin" by (auto simp add: call_of_def)
  with cases threw obtain what' where fin: "fin = [call_of ?f ?dg k (Inl what')]"
    and res: "res = Inl (HardwareFault what')"
    by (auto simp add: call_of_def)
  from in_tl fin have c_eq: "c = call_of ?f ?dg k (Inl what')" by simp
  with threw have w: "what' = what" by (simp add: call_of_def)
  have "fin = [] \<or> fin = [call_of ?f ?dg k (Inl what')]" using fin by simp
  from trace_shape(3) [OF k log this]
  have "\<forall>c' \<in> set log. c_multiplier c' \<le> k" by blast
  moreover have "c_multiplier c = k" using c_eq by (simp add: call_of_def)
  moreover have "last log = c" using log fin c_eq by simp
  ultimately show "c = last log \<and> res = Inl (HardwareFault what)
         \<and> (\<forall>c' \<in> set log. c_multiplier c' \<le> c_multiplier c)"
    using res w by simp
qed

theorem initialize_hardware_exception_aborts_witness:
  "RNG_initialize demo_toString demo_sha3 (traced faulty_Initialize) [Buffer [1, 2, 3]] (0, [])
     = (Inl (HardwareFault ''hardware entropy source failed''),
        (1, [call_of ''./'' (demo_sha3 [1, 2, 3]) 0 (Inr False),
             call_of ''./'' (demo_sha3 [1, 2, 3]) 1 (Inl ''hardware entropy source failed'')]))
   \<and> c_outcome (call_of ''./'' (demo_sha3 [1, 2, 3]) 1 (Inl ''hardware entropy source failed''))
       = Inl ''hardware entropy source failed''
   \<and> call_of ''./'' (demo_sha3 [1, 2, 3]) 1 (Inl ''hardware entropy source failed'')
       = last [call_of ''./'' (demo_sha3 [1, 2, 3]) 0 (Inr False),
               call_of ''./'' (demo_sha3 [1, 2, 3]) 1 (Inl ''hardware entropy source failed'')]"
proof -
  let ?c = "call_of ''./'' (demo_sha3 [1, 2, 3]) 1 (Inl ''hardware entropy source failed'')"
  let ?L = "[call_of ''./'' (demo_sha3 [1, 2, 3]) 0 (Inr False), ?c]"
  have run: "RNG_initialize demo_toString demo_sha3 (traced faulty_Initialize) [Buffer [1, 2, 3]] (0, [])
     = (Inl (HardwareFault ''hardware entropy source failed''), (1, ?L))"
    by code_simp
  have mem: "?c \<in> set ?L" by simp
  have threw: "c_outcome ?c = Inl ''hardware entropy source failed''"
    by (simp add: call_of_def)
  from initialize_hardware_exception_aborts [OF run, rule_format, OF mem threw]
  have "?c = last ?L" by blast
  then show ?thesis using run threw by blast
qed

text \<open>
  C2, amended. With a 32-byte hash primitive, the protection key that
  \<open>isInitialized\<close> hands to its worker, that \<open>initialize\<close> passes to every
  \<open>Initialize\<close> call and that the \<open>ECCISAAC\<close> constructor stores is the hash of the
  buffer when the buffer is shorter than 32 bytes, and the whole buffer, unchanged,
  otherwise. It agrees with the specification's normalisation for buffers of at most
  32 bytes.
\<close>

theorem protection_key_is_buffer_or_hash:
  assumes sha: "length (sha3_256 buf) = 32"
    and run: "RNG_initialize Buffer_toString sha3_256 (traced Initialize) (Buffer buf # rest) (p, []) = (res, (p', log))"
  shows "(\<exists>w. RNG_isInitialized Buffer_toString sha3_256 (Buffer buf # rest) = Inr w
             \<and> w_digest w = (if length buf < 32 then sha3_256 buf else buf))
       \<and> (\<exists>obj. ECCISAAC_New Buffer_toString sha3_256 (Buffer buf # rest) = Inr obj
             \<and> m_key obj = (if length buf < 32 then sha3_256 buf else buf))
       \<and> log \<noteq> [] \<and> (\<forall>c \<in> set log. c_digest c = (if length buf < 32 then sha3_256 buf else buf))
       \<and> (length buf \<le> 32 \<longrightarrow>
            (if length buf < 32 then sha3_256 buf else buf) = spec_normalize_key sha3_256 buf)"
proof -
  let ?f = "fileId_arg Buffer_toString (info_at (Buffer buf # rest) 1)"
  let ?dg = "key_digest sha3_256 buf"
  have dg: "?dg = (if length buf < 32 then sha3_256 buf else buf)"
    using sha by (simp add: key_digest_eq store_at_full)
  have w: "RNG_isInitialized Buffer_toString sha3_256 (Buffer buf # rest)
         = Inr \<lparr> w_fileId = fileId_arg Buffer_toString (info_at (Buffer buf # rest) 1), w_digest = ?dg \<rparr>"
    by (simp add: RNG_isInitialized_def info_at_def)
  have "\<exists>folder. ECCISAAC_New Buffer_toString sha3_256 (Buffer buf # rest) = Inr \<lparr> m_key = ?dg, m_folderPath = folder \<rparr>"
    by (simp add: ECCISAAC_New_def info_at_def Let_def)
  then obtain folder where e: "ECCISAAC_New Buffer_toString sha3_256 (Buffer buf # rest) = Inr \<lparr> m_key = ?dg, m_folderPath = folder \<rparr>" ..
  from initialize_trace [OF run]
  obtain k fin where k: "k \<le> 6"
    and log: "log = map (\<lambda>i. call_of ?f ?dg i (Inr False)) [0..<k] @ fin"
    and cases: "k = 6 \<and> fin = [] \<and> res = Inl NotEnoughEntropy
             \<or> k < 6 \<and> fin = [call_of ?f ?dg k (Inr True)] \<and> res = Inr True
             \<or> (\<exists>what. k < 6 \<and> fin = [call_of ?f ?dg k (Inl what)] \<and> res = Inl (HardwareFault what))"
    by blast
  from cases obtain r where fin: "fin = [] \<or> fin = [call_of ?f ?dg k r]" by blast
  from trace_shape(3) [OF k log fin] have all: "\<forall>c \<in> set log. c_digest c = ?dg" by blast
  from cases log have ne: "log \<noteq> []" by auto
  have spec: "length buf \<le> 32 \<longrightarrow>
            (if length buf < 32 then sha3_256 buf else buf) = spec_normalize_key sha3_256 buf"
    by (simp add: spec_normalize_key_def)
  show ?thesis using w e all ne spec unfolding dg by simp
qed

theorem protection_key_is_buffer_or_hash_witness:
  "length (demo_sha3 [1, 2, 3]) = 32
   \<and> RNG_initialize demo_toString demo_sha3 (traced demo_Initialize) [Buffer [1, 2, 3]] (3, [])
       = (Inr True, (3, [call_of ''./'' (demo_sha3 [1, 2, 3]) 0 (Inr True)]))
   \<and> (\<exists>w. RNG_isInitialized demo_toString demo_sha3 [Buffer [1, 2, 3]] = Inr w \<and> w_digest w = demo_sha3 [1, 2, 3])
   \<and> (\<exists>obj. ECCISAAC_New demo_toString demo_sha3 [Buffer [1, 2, 3]] = Inr obj \<and> m_key obj = demo_sha3 [1, 2, 3])
   \<and> length (demo_sha3 (replicate 40 9)) = 32
   \<and> RNG_initialize demo_toString demo_sha3 (traced demo_Initialize) [Buffer (replicate 40 9)] (3, [])
       = (Inr True, (3, [call_of ''./'' (replicate 40 9) 0 (Inr True)]))
   \<and> (\<exists>w. RNG_isInitialized demo_toString demo_sha3 [Buffer (replicate 40 9)] = Inr w \<and> w_digest w = replicate 40 9)
   \<and> (\<exists>obj. ECCISAAC_New demo_toString demo_sha3 [Buffer (replicate 40 9)] = Inr obj \<and> m_key obj = replicate 40 9)"
proof -
  have s1: "length (demo_sha3 [1, 2, 3]) = 32" by (simp add: demo_sha3_def)
  have r1: "RNG_initialize demo_toString demo_sha3 (traced demo_Initialize) [Buffer [1, 2, 3]] (3, [])
       = (Inr True, (3, [call_of ''./'' (demo_sha3 [1, 2, 3]) 0 (Inr True)]))"
    by code_simp
  have s2: "length (demo_sha3 (replicate 40 9)) = 32" by (simp add: demo_sha3_def)
  have r2: "RNG_initialize demo_toString demo_sha3 (traced demo_Initialize) [Buffer (replicate 40 9)] (3, [])
       = (Inr True, (3, [call_of ''./'' (replicate 40 9) 0 (Inr True)]))"
    by code_simp
  note t1 = protection_key_is_buffer_or_hash [OF s1 r1]
  note t2 = protection_key_is_buffer_or_hash [OF s2 r2]
  from t1 [THEN conjunct1] t1 [THEN conjunct2, THEN conjunct1]
  have a: "(\<exists>w. RNG_isInitialized demo_toString demo_sha3 [Buffer [1, 2, 3]] = Inr w \<and> w_digest w = demo_sha3 [1, 2, 3])"
    "(\<exists>obj. ECCISAAC_New demo_toString demo_sha3 [Buffer [1, 2, 3]] = Inr obj \<and> m_key obj = demo_sha3 [1, 2, 3])"
    by simp_all
  from t2 [THEN conjunct1] t2 [THEN conjunct2, THEN conjunct1]
  have b: "(\<exists>w. RNG_isInitialized demo_toString demo_sha3 [Buffer (replicate 40 9)] = Inr w \<and> w_digest w = replicate 40 9)"
    "(\<exists>obj. ECCISAAC_New demo_toString demo_sha3 [Buffer (replicate 40 9)] = Inr obj \<and> m_key obj = replicate 40 9)"
    by simp_all
  show ?thesis using s1 r1 a s2 r2 b by blast
qed

text \<open>
  C2 as stated fails: for a 33-byte buffer the key used in all three places is the
  33-byte buffer, not its first 32 bytes.
\<close>

theorem protection_key_not_truncated:
  "32 \<le> length (replicate 33 (1 :: byte))
   \<and> RNG_isInitialized demo_toString demo_sha3 [Buffer (replicate 33 1)]
       = Inr \<lparr> w_fileId = ''./'', w_digest = replicate 33 1 \<rparr>
   \<and> ECCISAAC_New demo_toString demo_sha3 [Buffer (replicate 33 1)]
       = Inr \<lparr> m_key = replicate 33 1, m_folderPath = ''./'' \<rparr>
   \<and> fst (RNG_initialize demo_toString demo_sha3 (traced demo_Initialize) [Buffer (replicate 33 1)] (3, []))
       = Inr True
   \<and> map c_digest (snd (snd (RNG_initialize demo_toString demo_sha3 (traced demo_Initialize) [Buffer (replicate 33 1)] (3, []))))
       = [replicate 33 1]
   \<and> replicate 33 (1 :: byte) \<noteq> spec_normalize_key demo_sha3 (replicate 33 1)
   \<and> spec_normalize_key demo_sha3 (replicate 33 1) = take 32 (replicate 33 1)"
  by code_simp

text \<open>
  C9. With a primitive that produces 32-byte digests, \<open>hash\<close> returns, for every
  byte sequence and every string, the empty input included, exactly the digest of
  the input, 32 bytes long, and throws nothing. The result is the same for the same
  first argument whatever the other arguments, the runtime's conversion and the state
  of the addon are, and no call changes the state of the addon.
\<close>

theorem hash_returns_digest:
  assumes digest: "\<And>x. length (sha3_256 x) = 32"
  shows "SEIFSHA3_hash Buffer_toString sha3_256 (Buffer b # rest) addon
           = (Inr (sha3_256 b), addon)
       \<and> SEIFSHA3_hash Buffer_toString sha3_256 (Text s # rest) addon
           = (Inr (sha3_256 (bytes_of (from_c_str s))), addon)
       \<and> SEIFSHA3_hash Buffer_toString sha3_256 [Buffer []] addon = (Inr (sha3_256 []), addon)
       \<and> (\<exists>d. fst (SEIFSHA3_hash Buffer_toString sha3_256 (Buffer b # rest) addon) = Inr d
              \<and> length d = 32)
       \<and> fst (SEIFSHA3_hash Buffer_toString sha3_256 (Buffer b # rest) addon)
           = fst (SEIFSHA3_hash Buffer_toString' sha3_256 (Buffer b # rest') addon')
       \<and> fst (SEIFSHA3_hash Buffer_toString sha3_256 (Text s # rest) addon)
           = fst (SEIFSHA3_hash Buffer_toString' sha3_256 (Text s # rest') addon')
       \<and> snd (SEIFSHA3_hash Buffer_toString sha3_256 info addon) = addon"
proof -
  have full: "store_at (replicate 32 0) (sha3_256 x) = sha3_256 x" for x
    using digest [of x] by (simp add: store_at_full)
  have buf: "SEIFSHA3_hash T sha3_256 (Buffer x # r) w = (Inr (sha3_256 x), w)"
    for T x r w
    by (simp add: SEIFSHA3_hash_def info_at_def hashBuffer_def DIGESTSIZE_def full)
  have str: "SEIFSHA3_hash T sha3_256 (Text x # r) w = (Inr (sha3_256 (bytes_of (from_c_str x))), w)"
    for T x r w
    by (simp add: SEIFSHA3_hash_def info_at_def hashString_def DIGESTSIZE_def full)
  have same: "snd (SEIFSHA3_hash Buffer_toString sha3_256 info addon) = addon"
    by (simp add: SEIFSHA3_hash_def Let_def)
  show ?thesis
    using digest [of b] same by (simp add: buf str)
qed

theorem hash_returns_digest_witness:
  "length (demo_sha3 [1, 2, 3]) = 32
   \<and> demo_sha3 [1, 2, 3] = [1, 2, 3] @ replicate 29 3
   \<and> SEIFSHA3_hash demo_toString demo_sha3 [Buffer [1, 2, 3]] (5 :: nat)
       = (Inr ([1, 2, 3] @ replicate 29 3), 5)
   \<and> SEIFSHA3_hash demo_toString demo_sha3 [Buffer []] (5 :: nat) = (Inr (replicate 32 0), 5)"
proof -
  have d: "length (demo_sha3 x) = 32" for x by (simp add: demo_sha3_def)
  have v: "demo_sha3 [1, 2, 3] = [1, 2, 3] @ replicate 29 3" "demo_sha3 [] = replicate 32 0"
    by code_simp+
  note t = hash_returns_digest [of demo_sha3 demo_toString "[1, 2, 3]" "[]" "5 :: nat", OF d]
  have a: "SEIFSHA3_hash demo_toString demo_sha3 [Buffer [1, 2, 3]] (5 :: nat)
       = (Inr (demo_sha3 [1, 2, 3]), 5)"
    by (rule t [THEN conjunct1])
  have b: "SEIFSHA3_hash demo_toString demo_sha3 [Buffer []] (5 :: nat) = (Inr (demo_sha3 []), 5)"
    by (rule t [THEN conjunct2, THEN conjunct2, THEN conjunct1])
  show ?thesis using d [of "[1, 2, 3]"] v(1) a b unfolding v by blast
qed

section \<open>Properties of eccisaac.cc\<close>

lemma LoadPrivateKey_cases:
  "LoadPrivateKey fc ecies d k0 file key folder =
     (if \<not> fileExists d (folder @ file) then Inr (FILE_NOT_FOUND, k0)
      else if \<not> decrypts fc d key (folder @ file) then Inr (DECRYPTION_ERROR, k0)
      else (case Load_private ecies (the (readFile fc key (the (d (folder @ file))))) of
              None \<Rightarrow> Inl ''BER decode error'' | Some loaded \<Rightarrow> Inr (SUCCESS, loaded)))"
  by (auto simp add: LoadPrivateKey_def decrypts_def fileExists_def split: option.splits)

lemma LoadPublicKey_cases:
  "LoadPublicKey fc ecies d k0 file key folder =
     (if \<not> fileExists d (folder @ file) then Inr (FILE_NOT_FOUND, k0)
      else if \<not> decrypts fc d key (folder @ file) then Inr (DECRYPTION_ERROR, k0)
      else (case Load_public ecies (the (readFile fc key (the (d (folder @ file))))) of
              None \<Rightarrow> Inl ''BER decode error'' | Some loaded \<Rightarrow> Inr (SUCCESS, loaded)))"
  by (auto simp add: LoadPublicKey_def decrypts_def fileExists_def split: option.splits)

text \<open>
  C6, amended. \<open>loadKeys\<close> examines the private key file first and the public key
  file only once the private key is loaded; the first step that fails decides the
  status. It returns \<open>FILE_NOT_FOUND\<close> exactly when the private file is absent, or the
  private key loaded and the public file is absent; \<open>DECRYPTION_ERROR\<close> exactly when
  the private file is present and fails to decrypt, or the private key loaded and the
  public file is present and fails to decrypt; \<open>SUCCESS\<close> exactly when both files
  decrypt and their contents load as keys, and then with both keys hex-encoded. No
  other status is returned, and keys come with \<open>SUCCESS\<close> only.
\<close>

theorem loadKeys_status:
  "(loadKeys fc ecies d0 e0 d key folder = Inr (FILE_NOT_FOUND, None) \<longleftrightarrow>
      \<not> fileExists d (folder @ PRIV_KEY_FILE_NAME)
    \<or> (decrypts fc d key (folder @ PRIV_KEY_FILE_NAME)
       \<and> Load_private ecies (decrypted fc d key (folder @ PRIV_KEY_FILE_NAME)) \<noteq> None
       \<and> \<not> fileExists d (folder @ PUB_KEY_FILE_NAME)))
 \<and> (loadKeys fc ecies d0 e0 d key folder = Inr (DECRYPTION_ERROR, None) \<longleftrightarrow>
      (fileExists d (folder @ PRIV_KEY_FILE_NAME) \<and> \<not> decrypts fc d key (folder @ PRIV_KEY_FILE_NAME))
    \<or> (decrypts fc d key (folder @ PRIV_KEY_FILE_NAME)
       \<and> Load_private ecies (decrypted fc d key (folder @ PRIV_KEY_FILE_NAME)) \<noteq> None
       \<and> fileExists d (folder @ PUB_KEY_FILE_NAME) \<and> \<not> decrypts fc d key (folder @ PUB_KEY_FILE_NAME)))
 \<and> ((\<exists>keys. loadKeys fc ecies d0 e0 d key folder = Inr (SUCCESS, keys)) \<longleftrightarrow>
      decrypts fc d key (folder @ PRIV_KEY_FILE_NAME)
    \<and> Load_private ecies (decrypted fc d key (folder @ PRIV_KEY_FILE_NAME)) \<noteq> None
    \<and> decrypts fc d key (folder @ PUB_KEY_FILE_NAME)
    \<and> Load_public ecies (decrypted fc d key (folder @ PUB_KEY_FILE_NAME)) \<noteq> None)
 \<and> (\<forall>keys. loadKeys fc ecies d0 e0 d key folder = Inr (SUCCESS, keys) \<longrightarrow>
      keys = Some
        (HexEncoder ecies (Save_public ecies
           (the (Load_public ecies (decrypted fc d key (folder @ PUB_KEY_FILE_NAME))))),
         HexEncoder ecies (Save_private ecies
           (the (Load_private ecies (decrypted fc d key (folder @ PRIV_KEY_FILE_NAME)))))))
 \<and> (\<forall>st keys. loadKeys fc ecies d0 e0 d key folder = Inr (st, keys) \<longrightarrow>
      (st = SUCCESS \<or> st = FILE_NOT_FOUND \<or> st = DECRYPTION_ERROR)
    \<and> (st = SUCCESS \<or> keys = None))"
proof -
  have dp: "decrypts fc d key p \<Longrightarrow> fileExists d p" for p
    by (simp add: decrypts_def fileExists_def split: option.splits)
  show ?thesis
    using dp [of "folder @ PRIV_KEY_FILE_NAME"] dp [of "folder @ PUB_KEY_FILE_NAME"]
    by (cases "Load_private ecies (decrypted fc d key (folder @ PRIV_KEY_FILE_NAME))";
        cases "Load_public ecies (decrypted fc d key (folder @ PUB_KEY_FILE_NAME))";
        cases "fileExists d (folder @ PRIV_KEY_FILE_NAME)";
        cases "fileExists d (folder @ PUB_KEY_FILE_NAME)";
        cases "decrypts fc d key (folder @ PRIV_KEY_FILE_NAME)";
        cases "decrypts fc d key (folder @ PUB_KEY_FILE_NAME)";
        simp add: loadKeys_def LoadPrivateKey_cases LoadPublicKey_cases decrypted_def Let_def)
qed

text \<open>
  C6 as stated fails: with a private key file that does not decrypt and no public key
  file, a file is absent and the status is \<open>DECRYPTION_ERROR\<close>, not
  \<open>FILE_NOT_FOUND\<close>.
\<close>

theorem loadKeys_decryption_error_with_absent_file:
  "loadKeys demo_fc demo_ecies [] [] wrong_key_disk [7, 7] ''./'' = Inr (DECRYPTION_ERROR, None)
   \<and> \<not> fileExists wrong_key_disk (''./'' @ PUB_KEY_FILE_NAME)
   \<and> fileExists wrong_key_disk (''./'' @ PRIV_KEY_FILE_NAME)
   \<and> \<not> decrypts demo_fc wrong_key_disk [7, 7] (''./'' @ PRIV_KEY_FILE_NAME)"
  by code_simp

theorem loadKeys_status_witness:
  "\<not> fileExists Map.empty (''./'' @ PRIV_KEY_FILE_NAME)
   \<and> loadKeys demo_fc demo_ecies [] [] Map.empty [7, 7] ''./'' = Inr (FILE_NOT_FOUND, None)
   \<and> decrypts demo_fc absent_public_disk [7, 7] (''./'' @ PRIV_KEY_FILE_NAME)
   \<and> \<not> fileExists absent_public_disk (''./'' @ PUB_KEY_FILE_NAME)
   \<and> loadKeys demo_fc demo_ecies [] [] absent_public_disk [7, 7] ''./'' = Inr (FILE_NOT_FOUND, None)
   \<and> fileExists wrong_key_disk (''./'' @ PRIV_KEY_FILE_NAME)
   \<and> \<not> decrypts demo_fc wrong_key_disk [7, 7] (''./'' @ PRIV_KEY_FILE_NAME)
   \<and> loadKeys demo_fc demo_ecies [] [] wrong_key_disk [7, 7] ''./'' = Inr (DECRYPTION_ERROR, None)
   \<and> decrypts demo_fc good_disk [7, 7] (''./'' @ PRIV_KEY_FILE_NAME)
   \<and> decrypts demo_fc good_disk [7, 7] (''./'' @ PUB_KEY_FILE_NAME)
   \<and> loadKeys demo_fc demo_ecies [] [] good_disk [7, 7] ''./'' = Inr (SUCCESS, Some (''1121'', ''1020''))"
proof -
  have a: "\<not> fileExists Map.empty (''./'' @ PRIV_KEY_FILE_NAME)" by code_simp
  have b: "decrypts demo_fc absent_public_disk [7, 7] (''./'' @ PRIV_KEY_FILE_NAME)"
    "Load_private demo_ecies (decrypted demo_fc absent_public_disk [7, 7] (''./'' @ PRIV_KEY_FILE_NAME)) \<noteq> None"
    "\<not> fileExists absent_public_disk (''./'' @ PUB_KEY_FILE_NAME)"
    by code_simp+
  have c: "fileExists wrong_key_disk (''./'' @ PRIV_KEY_FILE_NAME)"
    "\<not> decrypts demo_fc wrong_key_disk [7, 7] (''./'' @ PRIV_KEY_FILE_NAME)"
    by code_simp+
  have g: "decrypts demo_fc good_disk [7, 7] (''./'' @ PRIV_KEY_FILE_NAME)"
    "decrypts demo_fc good_disk [7, 7] (''./'' @ PUB_KEY_FILE_NAME)"
    by code_simp+
  have keys: "loadKeys demo_fc demo_ecies [] [] good_disk [7, 7] ''./'' = Inr (SUCCESS, Some (''1121'', ''1020''))"
    by code_simp
  from loadKeys_status [of demo_fc demo_ecies "[]" "[]" Map.empty "[7, 7]" "''./''"] a
  have 1: "loadKeys demo_fc demo_ecies [] [] Map.empty [7, 7] ''./'' = Inr (FILE_NOT_FOUND, None)"
    by blast
  from loadKeys_status [of demo_fc demo_ecies "[]" "[]" absent_public_disk "[7, 7]" "''./''"] b
  have 2: "loadKeys demo_fc demo_ecies [] [] absent_public_disk [7, 7] ''./'' = Inr (FILE_NOT_FOUND, None)"
    by blast
  from loadKeys_status [of demo_fc demo_ecies "[]" "[]" wrong_key_disk "[7, 7]" "''./''"] c
  have 3: "loadKeys demo_fc demo_ecies [] [] wrong_key_disk [7, 7] ''./'' = Inr (DECRYPTION_ERROR, None)"
    by blast
  show ?thesis using a b(1,3) c g keys 1 2 3 by blast
qed

text \<open>
  C7. When the entropy loop of \<open>generateKeys\<close> ends in a caught exception or with
  all 6 attempts failed, and when the private or the public key fails validation,
  \<open>generateKeys\<close> reports failure and returns the disk it was given: neither key
  file is written.
\<close>

theorem generateKeys_failure_writes_nothing:
  "(\<forall>what prng'. entropy_loop (Initialize (folder @ RNG_STATE_FILE_NAME)) 0 prng = (Inl what, prng') \<longrightarrow>
      generateKeys Initialize fc ecies prng d key folder = (Failure (Some (HardwareFault what)), d))
 \<and> (\<forall>prng'. entropy_loop (Initialize (folder @ RNG_STATE_FILE_NAME)) 0 prng = (Inr 6, prng') \<longrightarrow>
      generateKeys Initialize fc ecies prng d key folder = (Failure (Some NotEnoughEntropy), d))
 \<and> (\<forall>m prng' d0 prng''.
      entropy_loop (Initialize (folder @ RNG_STATE_FILE_NAME)) 0 prng = (Inr m, prng') \<and> m \<noteq> 6
      \<and> Decryptor ecies prng' = (d0, prng'')
      \<and> \<not> fst (Valid_private ecies prng'' d0) \<longrightarrow>
      generateKeys Initialize fc ecies prng d key folder = (Failure None, d))
 \<and> (\<forall>m prng' d0 prng''.
      entropy_loop (Initialize (folder @ RNG_STATE_FILE_NAME)) 0 prng = (Inr m, prng') \<and> m \<noteq> 6
      \<and> Decryptor ecies prng' = (d0, prng'')
      \<and> fst (Valid_private ecies prng'' d0)
      \<and> \<not> fst (Valid_public ecies (snd (Valid_private ecies prng'' d0)) (Encryptor ecies d0)) \<longrightarrow>
      generateKeys Initialize fc ecies prng d key folder = (Failure None, d))"
proof (intro conjI allI impI)
  fix what prng'
  assume "entropy_loop (Initialize (folder @ RNG_STATE_FILE_NAME)) 0 prng = (Inl what, prng')"
  then show "generateKeys Initialize fc ecies prng d key folder = (Failure (Some (HardwareFault what)), d)"
    by (simp add: generateKeys_def del: entropy_loop.simps)
next
  fix prng'
  assume "entropy_loop (Initialize (folder @ RNG_STATE_FILE_NAME)) 0 prng = (Inr 6, prng')"
  then show "generateKeys Initialize fc ecies prng d key folder = (Failure (Some NotEnoughEntropy), d)"
    by (simp add: generateKeys_def del: entropy_loop.simps)
next
  fix m prng' d0 prng''
  assume a: "entropy_loop (Initialize (folder @ RNG_STATE_FILE_NAME)) 0 prng = (Inr m, prng') \<and> m \<noteq> 6
      \<and> Decryptor ecies prng' = (d0, prng'')
      \<and> \<not> fst (Valid_private ecies prng'' d0)"
  obtain okPriv p3 where vp: "Valid_private ecies prng'' d0 = (okPriv, p3)"
    by (cases "Valid_private ecies prng'' d0")
  with a have "validate_and_save fc ecies prng'' d d0 (Encryptor ecies d0) key folder = (False, d)"
    by (simp add: validate_and_save_def)
  with a show "generateKeys Initialize fc ecies prng d key folder = (Failure None, d)"
    by (simp add: generateKeys_def del: entropy_loop.simps)
next
  fix m prng' d0 prng''
  assume a: "entropy_loop (Initialize (folder @ RNG_STATE_FILE_NAME)) 0 prng = (Inr m, prng') \<and> m \<noteq> 6
      \<and> Decryptor ecies prng' = (d0, prng'')
      \<and> fst (Valid_private ecies prng'' d0)
      \<and> \<not> fst (Valid_public ecies (snd (Valid_private ecies prng'' d0)) (Encryptor ecies d0))"
  obtain okPriv p3 where vp: "Valid_private ecies prng'' d0 = (okPriv, p3)"
    by (cases "Valid_private ecies prng'' d0")
  obtain okPub p4 where vq: "Valid_public ecies p3 (Encryptor ecies d0) = (okPub, p4)"
    by (cases "Valid_public ecies p3 (Encryptor ecies d0)")
  from a vp vq have "validate_and_save fc ecies prng'' d d0 (Encryptor ecies d0) key folder = (False, d)"
    by (simp add: validate_and_save_def)
  with a show "generateKeys Initialize fc ecies prng d key folder = (Failure None, d)"
    by (simp add: generateKeys_def del: entropy_loop.simps)
qed

theorem generateKeys_failure_writes_nothing_witness:
  "entropy_loop (broken_Initialize (''./'' @ RNG_STATE_FILE_NAME)) 0 0
     = (Inl ''hardware entropy source failed'', 2)
   \<and> generateKeys broken_Initialize demo_fc demo_ecies 0 good_disk [7, 7] ''./''
     = (Failure (Some (HardwareFault ''hardware entropy source failed'')), good_disk)
   \<and> entropy_loop (exhausted_Initialize (''./'' @ RNG_STATE_FILE_NAME)) 0 0 = (Inr 6, 6)
   \<and> generateKeys exhausted_Initialize demo_fc demo_ecies 0 good_disk [7, 7] ''./''
     = (Failure (Some NotEnoughEntropy), good_disk)
   \<and> entropy_loop (ready_Initialize (''./'' @ RNG_STATE_FILE_NAME)) 0 4 = (Inr 0, 4)
   \<and> Decryptor rejecting_ecies 4 = ([4, 0x5A], 5)
   \<and> fst (Valid_private rejecting_ecies 5 [4, 0x5A])
   \<and> \<not> fst (Valid_public rejecting_ecies (snd (Valid_private rejecting_ecies 5 [4, 0x5A]))
              (Encryptor rejecting_ecies [4, 0x5A]))
   \<and> generateKeys ready_Initialize demo_fc rejecting_ecies 4 good_disk [7, 7] ''./''
     = (Failure None, good_disk)
   \<and> fst (generateKeys ready_Initialize demo_fc demo_ecies 4 Map.empty [7, 7] ''./'')
     = Keys ''055B'' ''045A''"
proof -
  have l1: "entropy_loop (broken_Initialize (''./'' @ RNG_STATE_FILE_NAME)) 0 0
     = (Inl ''hardware entropy source failed'', 2)" by code_simp
  have l2: "entropy_loop (exhausted_Initialize (''./'' @ RNG_STATE_FILE_NAME)) 0 0 = (Inr 6, 6)"
    by code_simp
  have l3: "entropy_loop (ready_Initialize (''./'' @ RNG_STATE_FILE_NAME)) 0 4 = (Inr 0, 4)"
    by code_simp
  have k: "Decryptor rejecting_ecies 4 = ([4, 0x5A], 5)" by code_simp
  have v: "fst (Valid_private rejecting_ecies 5 [4, 0x5A])"
    "\<not> fst (Valid_public rejecting_ecies (snd (Valid_private rejecting_ecies 5 [4, 0x5A]))
              (Encryptor rejecting_ecies [4, 0x5A]))"
    by code_simp+
  have ok: "fst (generateKeys ready_Initialize demo_fc demo_ecies 4 Map.empty [7, 7] ''./'')
     = Keys ''055B'' ''045A''" by code_simp
  note t1 = generateKeys_failure_writes_nothing
    [of broken_Initialize "''./''" 0 demo_fc demo_ecies good_disk "[7, 7]"]
  note t2 = generateKeys_failure_writes_nothing
    [of exhausted_Initialize "''./''" 0 demo_fc demo_ecies good_disk "[7, 7]"]
  note t3 = generateKeys_failure_writes_nothing
    [of ready_Initialize "''./''" 4 demo_fc rejecting_ecies good_disk "[7, 7]"]
  from t1 l1 have 1: "generateKeys broken_Initialize demo_fc demo_ecies 0 good_disk [7, 7] ''./''
     = (Failure (Some (HardwareFault ''hardware entropy source failed'')), good_disk)"
    by blast
  from t2 l2 have 2: "generateKeys exhausted_Initialize demo_fc demo_ecies 0 good_disk [7, 7] ''./''
     = (Failure (Some NotEnoughEntropy), good_disk)"
    by blast
  have "(0::nat) \<noteq> 6" by simp
  with t3 [THEN conjunct2, THEN conjunct2, THEN conjunct2, rule_format, of 0 4 "[4, 0x5A]" 5] l3 k v
  have 3: "generateKeys ready_Initialize demo_fc rejecting_ecies 4 good_disk [7, 7] ''./''
     = (Failure None, good_disk)"
    by blast
  show ?thesis using l1 l2 l3 k v ok 1 2 3 by blast
qed

end
